theory Spec2Isabelle
  imports Complex_Main
begin

section \<open>Weighted matrix combine: \<open>MatAdd\<close> (cqlinalg/blasext, matadd.cxx)\<close>

text \<open>
  Scalars: \<open>double\<close> is modelled by \<^typ>\<open>real\<close> and \<open>dcomplex\<close> by \<^typ>\<open>complex\<close>,
  with exact arithmetic (rounding is not modelled).  A dense buffer (\<open>T*\<close>) is a list,
  addressed column-major by \<open>i + j*LD\<close>.  \<open>MatAdd\<close> below is the call on three buffers
  that do not overlap; the call in which the first operand and the result are the same
  buffer (every call of \<open>formGD\<close> and \<open>formFock\<close>) is \<open>MatAdd_inplace\<close> further down.

  The only failure of \<open>MatAdd\<close> is its assertion.
\<close>

datatype error = AssertionViolation

text \<open>
  The inner \<open>omp simd\<close> loop of one column:
  \<open>for(int i = 0; i < M; i++) locC[i] = ALPHA * locA[i] + BETA * locB[i];\<close>
  where \<open>locA\<close>, \<open>locB\<close>, \<open>locC\<close> are the current offsets into \<open>A\<close>, \<open>B\<close>, \<open>C\<close>.
  \<open>crA\<close> and \<open>crB\<close> are the implicit conversions of C++ from the element types
  \<open>_F1\<close>, \<open>_F2\<close> to the result type \<open>_F3\<close> (the identity, or \<open>of_real\<close> for a
  \<open>double\<close> operand of a \<open>dcomplex\<close> result).
\<close>

definition MatAdd_column ::
  "('a \<Rightarrow> 'c) \<Rightarrow> ('b \<Rightarrow> 'c) \<Rightarrow> nat \<Rightarrow> 'c::semiring_0 \<Rightarrow> 'a list \<Rightarrow> nat \<Rightarrow> 'c \<Rightarrow> 'b list \<Rightarrow> nat
     \<Rightarrow> 'c list \<Rightarrow> nat \<Rightarrow> 'c list" where
  "MatAdd_column crA crB M ALPHA A locA BETA B locB C locC =
     fold (\<lambda>i C'. C'[locC + i := ALPHA * crA (A ! (locA + i)) + BETA * crB (B ! (locB + i))])
       [0..<M] C"

text \<open>
  One worker of the \<open>omp parallel\<close> region.  Its pointers \<open>locA\<close>, \<open>locB\<close>, \<open>locC\<close> are
  private, and they are advanced by the leading dimensions at the end of every iteration
  of the \<open>j\<close> loop that this worker executes.  The loop body does not mention \<open>j\<close>, so a
  worker is determined by the number of iterations it is given.
\<close>

fun MatAdd_worker ::
  "('a \<Rightarrow> 'c) \<Rightarrow> ('b \<Rightarrow> 'c) \<Rightarrow> nat \<Rightarrow> 'c::semiring_0 \<Rightarrow> 'a list \<Rightarrow> nat \<Rightarrow> 'c \<Rightarrow> 'b list \<Rightarrow> nat
     \<Rightarrow> nat \<Rightarrow> nat \<Rightarrow> nat \<Rightarrow> nat \<Rightarrow> nat \<Rightarrow> 'c list \<Rightarrow> 'c list" where
  "MatAdd_worker crA crB M ALPHA A LDA BETA B LDB LDC 0 locA locB locC C = C"
| "MatAdd_worker crA crB M ALPHA A LDA BETA B LDB LDC (Suc n) locA locB locC C =
     MatAdd_worker crA crB M ALPHA A LDA BETA B LDB LDC n (locA + LDA) (locB + LDB) (locC + LDC)
       (MatAdd_column crA crB M ALPHA A locA BETA B locB C locC)"

text \<open>
  The work sharing of \<open>#pragma omp for\<close> over \<open>N\<close> iterations and a team of
  \<open>nthreads\<close> workers, in the static schedule: every worker gets \<open>N div nthreads\<close>
  iterations and the first \<open>N mod nthreads\<close> workers one more.  A team of one worker runs
  the whole loop.
\<close>

definition omp_for_static :: "nat \<Rightarrow> nat \<Rightarrow> nat list" where
  "omp_for_static nthreads N =
     map (\<lambda>t. N div nthreads + (if t < N mod nthreads then 1 else 0)) [0..<nthreads]"

text \<open>
  The parallel region: every worker starts with \<open>locA = A\<close>, \<open>locB = B\<close>, \<open>locC = C\<close>
  (offset 0) and runs its share of the columns.  The workers are run one after the
  other, which is one of the executions of the region.
\<close>

definition MatAdd_region ::
  "nat \<Rightarrow> ('a \<Rightarrow> 'c) \<Rightarrow> ('b \<Rightarrow> 'c) \<Rightarrow> nat \<Rightarrow> nat \<Rightarrow> 'c::semiring_0 \<Rightarrow> 'a list \<Rightarrow> nat \<Rightarrow> 'c \<Rightarrow> 'b list
     \<Rightarrow> nat \<Rightarrow> 'c list \<Rightarrow> nat \<Rightarrow> 'c list" where
  "MatAdd_region nthreads crA crB M N ALPHA A LDA BETA B LDB C LDC =
     fold (\<lambda>n C'. MatAdd_worker crA crB M ALPHA A LDA BETA B LDB LDC n 0 0 0 C')
       (omp_for_static nthreads N) C"

text \<open>The generic template: the assertion, then the parallel region.\<close>

definition MatAdd ::
  "nat \<Rightarrow> ('a \<Rightarrow> 'c) \<Rightarrow> ('b \<Rightarrow> 'c) \<Rightarrow> char \<Rightarrow> char \<Rightarrow> nat \<Rightarrow> nat \<Rightarrow> 'c::semiring_0 \<Rightarrow> 'a list \<Rightarrow> nat
     \<Rightarrow> 'c \<Rightarrow> 'b list \<Rightarrow> nat \<Rightarrow> 'c list \<Rightarrow> nat \<Rightarrow> error + 'c list" where
  "MatAdd nthreads crA crB TRANSA TRANSB M N ALPHA A LDA BETA B LDB C LDC =
     (if TRANSA = CHR ''N'' \<and> TRANSB = CHR ''N''
      then Inr (MatAdd_region nthreads crA crB M N ALPHA A LDA BETA B LDB C LDC)
      else Inl AssertionViolation)"

subsection \<open>The call with the first operand and the result in the same buffer\<close>

text \<open>
  \<open>MatAdd(TRANSA, TRANSB, M, N, ALPHA, C, LDA, BETA, B, LDB, C, LDC)\<close>: \<open>locA\<close> and \<open>locC\<close>
  point into the same buffer, so \<open>locA[i]\<close> is read from the buffer as it is at that
  moment.  The inner loop of one column:
\<close>

definition MatAdd_column_inplace ::
  "('b \<Rightarrow> 'c) \<Rightarrow> nat \<Rightarrow> 'c::semiring_0 \<Rightarrow> nat \<Rightarrow> 'c \<Rightarrow> 'b list \<Rightarrow> nat \<Rightarrow> 'c list \<Rightarrow> nat \<Rightarrow> 'c list" where
  "MatAdd_column_inplace crB M ALPHA locA BETA B locB C locC =
     fold (\<lambda>i C'. C'[locC + i := ALPHA * C' ! (locA + i) + BETA * crB (B ! (locB + i))])
       [0..<M] C"

fun MatAdd_worker_inplace ::
  "('b \<Rightarrow> 'c) \<Rightarrow> nat \<Rightarrow> 'c::semiring_0 \<Rightarrow> nat \<Rightarrow> 'c \<Rightarrow> 'b list \<Rightarrow> nat
     \<Rightarrow> nat \<Rightarrow> nat \<Rightarrow> nat \<Rightarrow> nat \<Rightarrow> nat \<Rightarrow> 'c list \<Rightarrow> 'c list" where
  "MatAdd_worker_inplace crB M ALPHA LDA BETA B LDB LDC 0 locA locB locC C = C"
| "MatAdd_worker_inplace crB M ALPHA LDA BETA B LDB LDC (Suc n) locA locB locC C =
     MatAdd_worker_inplace crB M ALPHA LDA BETA B LDB LDC n (locA + LDA) (locB + LDB) (locC + LDC)
       (MatAdd_column_inplace crB M ALPHA locA BETA B locB C locC)"

text \<open>
  Two workers that are given the same column (see \<open>MatAdd_worker\<close>: every worker starts at
  column 0) read and write the same elements without synchronisation, so the result
  depends on how they interleave.  A team is its number of workers and one of two
  interleavings: the workers run one after the other, each reading what the earlier ones
  have written; or they run in lock step, every worker reading an element before any
  worker writes it, so that all of them read the buffer as it was on entry.  The second
  is an execution of the code if the columns do not overlap and \<open>LDA = LDC\<close>, as in every
  call of \<open>formGD\<close> and \<open>formFock\<close>.  With one worker the two are the same.
\<close>

datatype omp_team = Team (workers: nat) (lockstep: bool)

definition MatAdd_inplace_region ::
  "omp_team \<Rightarrow> ('b \<Rightarrow> 'c) \<Rightarrow> nat \<Rightarrow> nat \<Rightarrow> 'c::semiring_0 \<Rightarrow> nat \<Rightarrow> 'c \<Rightarrow> 'b list \<Rightarrow> nat
     \<Rightarrow> 'c list \<Rightarrow> nat \<Rightarrow> 'c list" where
  "MatAdd_inplace_region team crB M N ALPHA LDA BETA B LDB C LDC =
     (if lockstep team
      then MatAdd_region (workers team) (\<lambda>x. x) crB M N ALPHA C LDA BETA B LDB C LDC
      else fold (\<lambda>n C'. MatAdd_worker_inplace crB M ALPHA LDA BETA B LDB LDC n 0 0 0 C')
             (omp_for_static (workers team) N) C)"

definition MatAdd_inplace ::
  "omp_team \<Rightarrow> ('b \<Rightarrow> 'c) \<Rightarrow> char \<Rightarrow> char \<Rightarrow> nat \<Rightarrow> nat \<Rightarrow> 'c::semiring_0 \<Rightarrow> nat \<Rightarrow> 'c \<Rightarrow> 'b list \<Rightarrow> nat
     \<Rightarrow> 'c list \<Rightarrow> nat \<Rightarrow> error + 'c list" where
  "MatAdd_inplace team crB TRANSA TRANSB M N ALPHA LDA BETA B LDB C LDC =
     (if TRANSA = CHR ''N'' \<and> TRANSB = CHR ''N''
      then Inr (MatAdd_inplace_region team crB M N ALPHA LDA BETA B LDB C LDC)
      else Inl AssertionViolation)"

subsection \<open>The specialisations of a build with \<open>_CQ_MKL\<close>\<close>

text \<open>
  With \<open>_CQ_MKL\<close> defined, the instantiation on three \<open>double\<close> buffers is a
  specialisation that hands its arguments, transposition flags included, to
  \<open>mkl_domatadd\<close> and has no assertion.  The vendor routine is not part of the
  repository; it is modelled after its documentation for the column-major ordering:
  \<open>C := alpha*op(A) + beta*op(B)\<close>, where \<open>op\<close> is the identity for \<open>'N'\<close> and \<open>'R'\<close> and the
  transpose for \<open>'T'\<close> and \<open>'C'\<close> (conjugation is the identity on reals).
\<close>

definition mkl_op :: "char \<Rightarrow> real list \<Rightarrow> nat \<Rightarrow> nat \<Rightarrow> nat \<Rightarrow> real" where
  "mkl_op TRANS A LDA i j =
     (if TRANS = CHR ''T'' \<or> TRANS = CHR ''C'' then A ! (j + i * LDA) else A ! (i + j * LDA))"

definition mkl_domatadd ::
  "char \<Rightarrow> char \<Rightarrow> nat \<Rightarrow> nat \<Rightarrow> real \<Rightarrow> real list \<Rightarrow> nat \<Rightarrow> real \<Rightarrow> real list \<Rightarrow> nat
     \<Rightarrow> real list \<Rightarrow> nat \<Rightarrow> real list" where
  "mkl_domatadd TRANSA TRANSB M N ALPHA A LDA BETA B LDB C LDC =
     fold (\<lambda>j C'. fold (\<lambda>i C''.
         C''[i + j * LDC := ALPHA * mkl_op TRANSA A LDA i j + BETA * mkl_op TRANSB B LDB i j])
       [0..<M] C') [0..<N] C"

text \<open>
  \<open>MatAdd\<close> on three \<open>double\<close> buffers, for both builds: the specialisation under
  \<open>#ifdef _CQ_MKL\<close>, the explicit instantiation of the generic template otherwise.
\<close>

definition MatAdd_double ::
  "bool \<Rightarrow> nat \<Rightarrow> char \<Rightarrow> char \<Rightarrow> nat \<Rightarrow> nat \<Rightarrow> real \<Rightarrow> real list \<Rightarrow> nat \<Rightarrow> real \<Rightarrow> real list \<Rightarrow> nat
     \<Rightarrow> real list \<Rightarrow> nat \<Rightarrow> error + real list" where
  "MatAdd_double CQ_MKL nthreads TRANSA TRANSB M N ALPHA A LDA BETA B LDB C LDC =
     (if CQ_MKL then Inr (mkl_domatadd TRANSA TRANSB M N ALPHA A LDA BETA B LDB C LDC)
      else MatAdd nthreads (\<lambda>x. x) (\<lambda>x. x) TRANSA TRANSB M N ALPHA A LDA BETA B LDB C LDC)"

text \<open>
  Likewise the instantiation on three \<open>dcomplex\<close> buffers, which calls \<open>mkl_zomatadd\<close>:
  \<open>op\<close> is the identity for \<open>'N'\<close>, the transpose for \<open>'T'\<close>, the conjugate transpose for
  \<open>'C'\<close> and the conjugate for \<open>'R'\<close>.
\<close>

definition mkl_zop :: "char \<Rightarrow> complex list \<Rightarrow> nat \<Rightarrow> nat \<Rightarrow> nat \<Rightarrow> complex" where
  "mkl_zop TRANS A LDA i j =
     (if TRANS = CHR ''T'' then A ! (j + i * LDA)
      else if TRANS = CHR ''C'' then cnj (A ! (j + i * LDA))
      else if TRANS = CHR ''R'' then cnj (A ! (i + j * LDA))
      else A ! (i + j * LDA))"

definition mkl_zomatadd ::
  "char \<Rightarrow> char \<Rightarrow> nat \<Rightarrow> nat \<Rightarrow> complex \<Rightarrow> complex list \<Rightarrow> nat \<Rightarrow> complex \<Rightarrow> complex list \<Rightarrow> nat
     \<Rightarrow> complex list \<Rightarrow> nat \<Rightarrow> complex list" where
  "mkl_zomatadd TRANSA TRANSB M N ALPHA A LDA BETA B LDB C LDC =
     fold (\<lambda>j C'. fold (\<lambda>i C''.
         C''[i + j * LDC := ALPHA * mkl_zop TRANSA A LDA i j + BETA * mkl_zop TRANSB B LDB i j])
       [0..<M] C') [0..<N] C"

definition MatAdd_dcomplex ::
  "bool \<Rightarrow> nat \<Rightarrow> char \<Rightarrow> char \<Rightarrow> nat \<Rightarrow> nat \<Rightarrow> complex \<Rightarrow> complex list \<Rightarrow> nat \<Rightarrow> complex
     \<Rightarrow> complex list \<Rightarrow> nat \<Rightarrow> complex list \<Rightarrow> nat \<Rightarrow> error + complex list" where
  "MatAdd_dcomplex CQ_MKL nthreads TRANSA TRANSB M N ALPHA A LDA BETA B LDB C LDC =
     (if CQ_MKL then Inr (mkl_zomatadd TRANSA TRANSB M N ALPHA A LDA BETA B LDB C LDC)
      else MatAdd nthreads (\<lambda>x. x) (\<lambda>x. x) TRANSA TRANSB M N ALPHA A LDA BETA B LDB C LDC)"

section \<open>The electronic-structure state: \<open>SingleSlater<T>\<close> (singleslater/fock.hpp)\<close>

text \<open>
  Sequencing of fallible steps: the first failure ends the routine, as a failed assertion
  ends the program.
\<close>

definition bindE :: "error + 'a \<Rightarrow> ('a \<Rightarrow> error + 'b) \<Rightarrow> error + 'b" where
  "bindE m f = (case m of Inl e \<Rightarrow> Inl e | Inr x \<Rightarrow> f x)"

fun for_each :: "nat list \<Rightarrow> (nat \<Rightarrow> 's \<Rightarrow> error + 's) \<Rightarrow> 's \<Rightarrow> error + 's" where
  "for_each [] body s = Inr s"
| "for_each (i # is) body s = bindE (body i s) (for_each is body)"

text \<open>\<open>std::fill_n(F, n, v)\<close> and \<open>memset(F, 0, n*sizeof(T))\<close>: the first \<open>n\<close> elements are set.\<close>

definition fill_n :: "'a list \<Rightarrow> nat \<Rightarrow> 'a \<Rightarrow> 'a list" where
  "fill_n F n v = replicate (min n (length F)) v @ drop n F"

abbreviation (input) SCALAR :: nat where
  "SCALAR \<equiv> 0"

datatype TWOBODY_CONTRACTION_TYPE = COULOMB | EXCHANGE

text \<open>
  The destination pointer of a contraction request: the Coulomb accumulation buffer
  \<open>JContract\<close> or the exchange buffer \<open>K[i]\<close>.
\<close>

datatype buffer_ref = JContractBuf | KBuf nat

record 'a TwoBodyContraction =
  X :: "'a list"
  AX :: buffer_ref
  HER :: bool
  contType :: TWOBODY_CONTRACTION_TYPE

text \<open>
  The calls that the routines make to their external collaborators (the shared
  allocator, the two-body contraction engine, the perturbation), recorded in order in
  the field \<open>calls\<close> of the state.  The field is not in the source; it makes the calls
  of a routine a part of its result.
\<close>

datatype ext_call =
    Malloc nat
  | Free buffer_ref
  | TwoBodyContract "(buffer_ref \<times> TWOBODY_CONTRACTION_TYPE) list"
  | GetAmp

text \<open>
  The members of \<open>SingleSlater<T>\<close> and of its \<open>aoints\<close> that \<open>formGD\<close> and
  \<open>formFock\<close> use.  \<open>aoints_contract\<close> is the contraction of the integral tensor with a
  density, element by element, as the engine computes it (the engine is not part of
  these sources).  \<open>memManager k\<close> is what element \<open>k\<close> of a block holds when the
  allocator hands it out.
\<close>

record 'a SingleSlater =
  nBasis :: nat
  coreH :: "real list list"
  lenElecDipole :: "real list list"
  aoints_contract :: "TWOBODY_CONTRACTION_TYPE \<Rightarrow> bool \<Rightarrow> 'a list \<Rightarrow> nat \<Rightarrow> 'a"
  memManager :: "nat \<Rightarrow> 'a"
  onePDM :: "'a list list"
  deltaOnePDM :: "'a list list"
  fock :: "'a list list"
  GD :: "'a list list"
  K :: "'a list list"
  JScalar :: "real list"
  calls :: "ext_call list"

text \<open>
  What depends on the template parameter \<open>T\<close>: the value of
  \<open>std::is_same<double,T>::value\<close>, the real part of a \<open>T\<close>, and the elementwise
  action of the helpers \<open>SetMatRE\<close> and \<open>SetMatIM\<close>.
\<close>

record 'a scalar_type =
  is_same_double :: bool
  real_part :: "'a \<Rightarrow> real"
  SetRE :: "real \<Rightarrow> 'a \<Rightarrow> 'a"
  SetIM :: "real \<Rightarrow> 'a \<Rightarrow> 'a"

definition dcomplex_type :: "complex scalar_type" where
  "dcomplex_type = \<lparr> is_same_double = False, real_part = Re,
     SetRE = (\<lambda>r z. Complex r (Im z)), SetIM = (\<lambda>r z. Complex (Re z) r) \<rparr>"


subsection \<open>Helpers of cqlinalg/blasext that are not among the sources\<close>

text \<open>A column-major sweep over an \<open>M\<close> by \<open>N\<close> block of \<open>B\<close> with leading dimension \<open>LDB\<close>.\<close>

definition sweep :: "nat \<Rightarrow> nat \<Rightarrow> nat \<Rightarrow> (nat \<Rightarrow> nat \<Rightarrow> 'b \<Rightarrow> 'b) \<Rightarrow> 'b list \<Rightarrow> 'b list" where
  "sweep M N LDB f B =
     fold (\<lambda>j B'. fold (\<lambda>i B''. B''[i + j * LDB := f i j (B'' ! (i + j * LDB))]) [0..<M] B')
       [0..<N] B"

text \<open>
  Modelled from the spec: \<open>GetMatRE\<close> is missing from the sources.  Section 4.2, step 5:
  the real content of the transient buffer is folded back into the canonical real
  Coulomb storage; so \<open>GetMatRE('N', M, N, ALPHA, A, LDA, B, LDB)\<close> stores
  \<open>ALPHA * Re(A[i + j*LDA])\<close> into \<open>B[i + j*LDB]\<close>.
\<close>

definition GetMatRE ::
  "'a scalar_type \<Rightarrow> nat \<Rightarrow> nat \<Rightarrow> real \<Rightarrow> 'a list \<Rightarrow> nat \<Rightarrow> real list \<Rightarrow> nat \<Rightarrow> real list" where
  "GetMatRE ty M N ALPHA A LDA B LDB =
     sweep M N LDB (\<lambda>i j b. ALPHA * real_part ty (A ! (i + j * LDA))) B"

text \<open>
  Modelled from the spec: \<open>SetMatRE\<close> and \<open>SetMatIM\<close> are missing from the sources.
  Section 4.3, step 3: the scalar component copies the real part of the core Hamiltonian,
  every remaining component the imaginary-axis contribution; so
  \<open>SetMatRE('N', M, N, ALPHA, A, LDA, B, LDB)\<close> stores \<open>ALPHA * A[i + j*LDA]\<close> into the
  real part of \<open>B[i + j*LDB]\<close>, and \<open>SetMatIM\<close> into its imaginary part.
\<close>

definition SetMatRE ::
  "'a scalar_type \<Rightarrow> nat \<Rightarrow> nat \<Rightarrow> real \<Rightarrow> real list \<Rightarrow> nat \<Rightarrow> 'a list \<Rightarrow> nat \<Rightarrow> 'a list" where
  "SetMatRE ty M N ALPHA A LDA B LDB =
     sweep M N LDB (\<lambda>i j b. SetRE ty (ALPHA * A ! (i + j * LDA)) b) B"

definition SetMatIM ::
  "'a scalar_type \<Rightarrow> nat \<Rightarrow> nat \<Rightarrow> real \<Rightarrow> real list \<Rightarrow> nat \<Rightarrow> 'a list \<Rightarrow> nat \<Rightarrow> 'a list" where
  "SetMatIM ty M N ALPHA A LDA B LDB =
     sweep M N LDB (\<lambda>i j b. SetIM ty (ALPHA * A ! (i + j * LDA)) b) B"

subsection \<open>The two-body contraction engine\<close>

text \<open>
  Modelled from the spec: \<open>AOIntegrals::twoBodyContract\<close> is missing from the sources.
  Section 6: the engine accepts a list of requests (density, destination buffer, flag,
  operator kind), performs the integral contraction and accumulates into each
  destination buffer.  The buffers it can reach are \<open>JContract\<close> and the \<open>K[i]\<close>.
\<close>

definition accumulate :: "'a::plus list \<Rightarrow> (nat \<Rightarrow> 'a) \<Rightarrow> 'a list" where
  "accumulate dest contribution = map (\<lambda>k. dest ! k + contribution k) [0..<length dest]"

definition twoBodyContract ::
  "(TWOBODY_CONTRACTION_TYPE \<Rightarrow> bool \<Rightarrow> 'a list \<Rightarrow> nat \<Rightarrow> 'a::plus) \<Rightarrow> 'a TwoBodyContraction list
     \<Rightarrow> 'a list \<times> 'a list list \<Rightarrow> 'a list \<times> 'a list list" where
  "twoBodyContract eri list bufs =
     fold (\<lambda>c (J, Ks).
        (case AX c of
           JContractBuf \<Rightarrow> (accumulate J (eri (contType c) (HER c) (X c)), Ks)
         | KBuf i \<Rightarrow> (J, Ks[i := accumulate (Ks ! i) (eri (contType c) (HER c) (X c))])))
       list bufs"

subsection \<open>\<open>SingleSlater<T>::formGD\<close>\<close>

text \<open>
  \<open>formGD\<close> and \<open>formFock\<close> call the generic template of \<open>MatAdd\<close> (every call with a
  \<open>double\<close> operand and a \<open>dcomplex\<close> result, and every call in a build without
  \<open>_CQ_MKL\<close>); the team of its parallel region is the parameter \<open>team\<close>.  All their calls
  pass \<open>'N'\<close>, \<open>'N'\<close>, the dimensions \<open>NB\<close>, \<open>NB\<close>, the leading dimension \<open>NB\<close>, and the
  result buffer as first operand.
\<close>

text \<open>
  The Coulomb accumulation buffer and its zeroing.  For \<open>T = double\<close>, \<open>JContract\<close> is
  \<open>JScalar\<close> itself; otherwise it is a block of \<open>NB2\<close> elements from the allocator.
\<close>

definition formGD_JContract :: "'a::real_algebra_1 scalar_type \<Rightarrow> bool \<Rightarrow> 'a SingleSlater \<Rightarrow> 'a list" where
  "formGD_JContract ty increment s =
     (let NB2 = nBasis s * nBasis s;
          JContract = (if is_same_double ty then map of_real (JScalar s)
                       else map (memManager s) [0..<NB2])
      in if \<not> increment \<or> \<not> is_same_double ty then fill_n JContract NB2 0 else JContract)"

text \<open>
  The list of contraction requests, and the zeroing of the exchange buffers:
  one Coulomb request, and one exchange request per \<open>K[i]\<close> if \<open>|xHFX| > 1e-12\<close>.
\<close>

definition formGD_contract ::
  "bool \<Rightarrow> real \<Rightarrow> 'a::zero list list \<Rightarrow> nat \<Rightarrow> 'a list list
     \<Rightarrow> 'a TwoBodyContraction list \<times> 'a list list" where
  "formGD_contract increment xHFX contract1PDM NB2 Ks =
     (let contract = [\<lparr> X = contract1PDM ! SCALAR, AX = JContractBuf, HER = True,
                         contType = COULOMB \<rparr>]
      in if \<bar>xHFX\<bar> > 1 / 10 ^ 12
         then fold (\<lambda>i (contract, Ks).
                 (contract @ [\<lparr> X = contract1PDM ! i, AX = KBuf i, HER = True,
                                 contType = EXCHANGE \<rparr>],
                  if \<not> increment then Ks[i := fill_n (Ks ! i) NB2 0] else Ks))
               [0..<length Ks] (contract, Ks)
         else (contract, Ks))"

text \<open>
  After the contraction: for \<open>T\<close> other than \<open>double\<close> the transient buffer is folded
  back into \<open>JScalar\<close>; for \<open>T = double\<close> the engine has written \<open>JScalar\<close> itself.
\<close>

definition formGD_JScalar ::
  "omp_team \<Rightarrow> 'a::real_algebra_1 scalar_type \<Rightarrow> bool \<Rightarrow> nat \<Rightarrow> 'a list \<Rightarrow> real list \<Rightarrow> error + real list" where
  "formGD_JScalar team ty increment NB JContract JS =
     (if \<not> is_same_double ty
      then (if \<not> increment then Inr (GetMatRE ty NB NB 1 JContract NB JS NB)
            else bindE (MatAdd_inplace team of_real (CHR ''N'') (CHR ''N'') NB NB 1 NB
                          1 JS NB JContract NB)
                   (\<lambda>JContract'. Inr (GetMatRE ty NB NB 1 JContract' NB JS NB)))
      else Inr (map (real_part ty) JContract))"

text \<open>
  \<open>G[D] = 2.0*J[D] - K[D]\<close>: the exchange part for every \<open>K[i]\<close> if \<open>|xHFX| > 1e-12\<close>,
  otherwise \<open>memset\<close> of \<open>GD[i]\<close> for every \<open>i < fock.size()\<close>; then \<open>2*JScalar\<close> is added
  to \<open>GD[SCALAR]\<close>.
\<close>

definition formGD_GD ::
  "omp_team \<Rightarrow> real \<Rightarrow> nat \<Rightarrow> nat \<Rightarrow> 'a::real_algebra_1 list list \<Rightarrow> real list \<Rightarrow> 'a list list
     \<Rightarrow> error + 'a list list" where
  "formGD_GD team xHFX NB fock_size Ks JS G =
     bindE
       (if \<bar>xHFX\<bar> > 1 / 10 ^ 12
        then for_each [0..<length Ks]
               (\<lambda>i G'. bindE (MatAdd_inplace team (\<lambda>x. x) (CHR ''N'') (CHR ''N'') NB NB
                                 0 NB (of_real (- xHFX)) (Ks ! i) NB (G' ! i) NB)
                          (\<lambda>Gi. Inr (G'[i := Gi]))) G
        else Inr (fold (\<lambda>i G'. G'[i := fill_n (G' ! i) (NB * NB) 0]) [0..<fock_size] G))
       (\<lambda>G'. bindE (MatAdd_inplace team of_real (CHR ''N'') (CHR ''N'') NB NB
                       1 NB 2 JS NB (G' ! SCALAR) NB)
                (\<lambda>G0. Inr (G'[SCALAR := G0])))"

definition formGD ::
  "omp_team \<Rightarrow> 'a::real_algebra_1 scalar_type \<Rightarrow> bool \<Rightarrow> real \<Rightarrow> 'a SingleSlater \<Rightarrow> error + 'a SingleSlater" where
  "formGD team ty increment xHFX s =
     (let contract1PDM = (if increment then deltaOnePDM s else onePDM s);
          NB = nBasis s;
          NB2 = NB * NB;
          JContract = formGD_JContract ty increment s;
          (contract, Ks) = formGD_contract increment xHFX contract1PDM NB2 (K s);
          (JContract', Ks') = twoBodyContract (aoints_contract s) contract (JContract, Ks)
      in bindE (formGD_JScalar team ty increment NB JContract' (JScalar s)) (\<lambda>JS.
         bindE (formGD_GD team xHFX NB (length (fock s)) Ks' JS (GD s)) (\<lambda>G.
           Inr (s\<lparr> K := Ks', JScalar := JS, GD := G,
                   calls := calls s
                     @ (if is_same_double ty then [] else [Malloc NB2])
                     @ [TwoBodyContract (map (\<lambda>c. (AX c, contType c)) contract)]
                     @ (if is_same_double ty then [] else [Free JContractBuf]) \<rparr>))))"

subsection \<open>\<open>SingleSlater<T>::formFock\<close>\<close>

text \<open>
  Modelled from the spec: \<open>EMPerturbation\<close> is missing from the sources.  Section 3: a set
  of active field components, each with an amplitude, empty when no field is applied.
  A field is given by its amplitude along x, y, z; \<open>getAmp\<close> is the total amplitude.
  The member \<open>fields\<close> is the field \<open>EM_fields\<close>.
\<close>

record EMPerturbation =
  EM_fields :: "real list list"

definition getAmp :: "EMPerturbation \<Rightarrow> real list" where
  "getAmp p = map (\<lambda>iXYZ. sum_list (map (\<lambda>f. f ! iXYZ) (EM_fields p))) [0..<3]"

text \<open>Zero out the Fock, copy over the core Hamiltonian.\<close>

definition formFock_coreH :: "'a::real_algebra_1 scalar_type \<Rightarrow> 'a SingleSlater \<Rightarrow> 'a list list" where
  "formFock_coreH ty s =
     (let NB = nBasis s;
          F0 = map (\<lambda>F. fill_n F (NB * NB) 0) (fock s);
          F1 = F0[SCALAR := SetMatRE ty NB NB 1 (coreH s ! SCALAR) NB (F0 ! SCALAR) NB]
      in fold (\<lambda>i F. F[i := SetMatIM ty NB NB 1 (coreH s ! i) NB (F ! i) NB])
           [1..<length (coreH s)] F1)"

text \<open>Add in the perturbation tensor \<open>GD\<close>.\<close>

definition formFock_GD ::
  "omp_team \<Rightarrow> nat \<Rightarrow> 'a::real_algebra_1 list list \<Rightarrow> 'a list list \<Rightarrow> error + 'a list list" where
  "formFock_GD team NB G F =
     for_each [0..<length F]
       (\<lambda>i F'. bindE (MatAdd_inplace team (\<lambda>x. x) (CHR ''N'') (CHR ''N'') NB NB
                         1 NB 1 (G ! i) NB (F' ! i) NB)
                  (\<lambda>Fi. Inr (F'[i := Fi]))) F"

text \<open>
  The value of the \<open>double\<close> literal \<open>1e-10\<close>: the nearest \<open>double\<close>, which lies above
  \<open>1/10^10\<close>.  (The \<open>double\<close> literal \<open>1e-12\<close> lies below \<open>1/10^12\<close> with no \<open>double\<close> in
  between, so that \<open>|xHFX| > 1e-12\<close> and \<open>|xHFX| > 1/10^12\<close> agree on every \<open>double\<close>.)
\<close>

definition double_1e_10 :: real where
  "double_1e_10 = 7737125245533627 / 2 ^ 86"

text \<open>The external field: the dipole term of every axis whose amplitude exceeds \<open>1e-10\<close>.\<close>

definition formFock_pert ::
  "omp_team \<Rightarrow> nat \<Rightarrow> real list list \<Rightarrow> EMPerturbation \<Rightarrow> 'a::real_algebra_1 list list
     \<Rightarrow> error + 'a list list" where
  "formFock_pert team NB dip p F =
     (if EM_fields p \<noteq> []
      then (let dipole = getAmp p
            in for_each [0..<3]
                 (\<lambda>iXYZ F'.
                    if \<bar>dipole ! iXYZ\<bar> > double_1e_10
                    then bindE (MatAdd_inplace team of_real (CHR ''N'') (CHR ''N'') NB NB
                                  1 NB (of_real (- 2 * dipole ! iXYZ)) (dip ! iXYZ) NB
                                  (F' ! 0) NB)
                           (\<lambda>F0. Inr (F'[0 := F0]))
                    else Inr F') F)
      else Inr F)"

definition formFock ::
  "omp_team \<Rightarrow> 'a::real_algebra_1 scalar_type \<Rightarrow> EMPerturbation \<Rightarrow> bool \<Rightarrow> real \<Rightarrow> 'a SingleSlater
     \<Rightarrow> error + 'a SingleSlater" where
  "formFock team ty p increment xHFX s =
     bindE (formGD team ty increment xHFX s) (\<lambda>s1.
     bindE (formFock_GD team (nBasis s1) (GD s1) (formFock_coreH ty s1)) (\<lambda>F.
     bindE (formFock_pert team (nBasis s1) (lenElecDipole s1) p F) (\<lambda>F'.
       Inr (s1\<lparr> fock := F',
                calls := calls s1 @ (if EM_fields p \<noteq> [] then [GetAmp] else []) \<rparr>))))"

section \<open>Time-dependent coupling: \<open>RealTime<_SSTyp,T>::formFock\<close> (realtime/fock.hpp)\<close>

text \<open>
  The members of \<open>RealTime\<close> that \<open>formFock\<close> uses: the perturbation source
  (\<open>pert.getPert\<close>, a descriptor for every time), the time of the current state and the
  propagated \<open>SingleSlater\<close> object.
\<close>

record 'a RealTime =
  pert_getPert :: "real \<Rightarrow> EMPerturbation"
  curState_xTime :: real
  propagator :: "'a SingleSlater"

text \<open>The arguments of the call \<open>propagator_.formFock(pert_t, increment)\<close> (the member \<open>propagator_\<close> is the field \<open>propagator\<close>).\<close>

definition RealTime_formFock_args :: "'a RealTime \<Rightarrow> bool \<Rightarrow> real \<Rightarrow> EMPerturbation \<times> bool" where
  "RealTime_formFock_args rt increment t = (pert_getPert rt (curState_xTime rt), increment)"

text \<open>
  \<open>xHFX\<close> is the default argument of \<open>SingleSlater::formFock\<close>, whose declaration is not
  among the sources.
\<close>

definition RealTime_formFock ::
  "omp_team \<Rightarrow> 'a::real_algebra_1 scalar_type \<Rightarrow> real \<Rightarrow> bool \<Rightarrow> real \<Rightarrow> 'a RealTime \<Rightarrow> error + 'a RealTime" where
  "RealTime_formFock team ty xHFX increment t rt =
     (case RealTime_formFock_args rt increment t of
        (pert_t, increment') \<Rightarrow>
          bindE (formFock team ty pert_t increment' xHFX (propagator rt))
            (\<lambda>ss. Inr (rt\<lparr> propagator := ss \<rparr>)))"

section \<open>Well-formed states\<close>

text \<open>
  The invariant that the owning object establishes and that the routines rely on without
  checking it: every component buffer holds \<open>NB*NB\<close> elements; \<open>fock\<close>, \<open>GD\<close>, \<open>K\<close> and
  the densities have the same, non-zero number of components; there is a scalar core
  Hamiltonian and no more core-Hamiltonian components than Fock components; there are
  three dipole matrices.
\<close>

definition wellformed :: "'a SingleSlater \<Rightarrow> bool" where
  "wellformed s =
     (let NB2 = nBasis s * nBasis s; n = length (fock s)
      in 0 < n \<and> length (GD s) = n \<and> length (K s) = n
         \<and> length (onePDM s) = n \<and> length (deltaOnePDM s) = n
         \<and> 0 < length (coreH s) \<and> length (coreH s) \<le> n \<and> length (lenElecDipole s) = 3
         \<and> list_all (\<lambda>F. length F = NB2) (fock s)
         \<and> list_all (\<lambda>F. length F = NB2) (GD s)
         \<and> list_all (\<lambda>F. length F = NB2) (K s)
         \<and> list_all (\<lambda>F. length F = NB2) (onePDM s)
         \<and> list_all (\<lambda>F. length F = NB2) (deltaOnePDM s)
         \<and> list_all (\<lambda>F. length F = NB2) (coreH s)
         \<and> list_all (\<lambda>F. length F = NB2) (lenElecDipole s)
         \<and> length (JScalar s) = NB2)"

section \<open>Example states\<close>

text \<open>
  A two-component complex state and a one-component real state on two basis functions.
  They show that the hypotheses of the theorems below can be met.
\<close>

definition example_state :: "complex SingleSlater" where
  "example_state =
     \<lparr> nBasis = 2,
       coreH = [[1, 0, 0, 2], [0, 1, 1, 0]],
       lenElecDipole = [[1, 1, 1, 1], [0, 1, 1, 0], [1, 0, 0, 1]],
       aoints_contract = (\<lambda>ct h P k. case ct of COULOMB \<Rightarrow> 2 * P ! k | EXCHANGE \<Rightarrow> P ! k),
       memManager = (\<lambda>k. 7),
       onePDM = [[1, 0, 0, 1], [0, \<i>, - \<i>, 0]],
       deltaOnePDM = [[0, 1, 1, 0], [0, 0, 0, 0]],
       fock = [[5, 5, 5, 5], [6, 6, 6, 6]],
       GD = [[3, 3, 3, 3], [4, 4, 4, 4]],
       K = [[8, 8, 8, 8], [9, 9, 9, 9]],
       JScalar = [1, 2, 3, 4],
       calls = [] \<rparr>"

definition example_state_double :: "real SingleSlater" where
  "example_state_double =
     \<lparr> nBasis = 2,
       coreH = [[1, 0, 0, 2]],
       lenElecDipole = [[1, 1, 1, 1], [0, 1, 1, 0], [1, 0, 0, 1]],
       aoints_contract = (\<lambda>ct h P k. case ct of COULOMB \<Rightarrow> 2 * P ! k | EXCHANGE \<Rightarrow> P ! k),
       memManager = (\<lambda>k. 7),
       onePDM = [[1, 0, 0, 1]],
       deltaOnePDM = [[0, 1, 1, 0]],
       fock = [[5, 5, 5, 5]],
       GD = [[3, 3, 3, 3]],
       K = [[8, 8, 8, 8]],
       JScalar = [1, 2, 3, 4],
       calls = [] \<rparr>"

text \<open>
  A propagation whose field is switched on at time \<open>1/2\<close> along x, with the current
  state at time \<open>0\<close>.
\<close>

definition example_RealTime :: "complex RealTime" where
  "example_RealTime =
     \<lparr> pert_getPert = (\<lambda>t. if 1 / 2 \<le> t then \<lparr> EM_fields = [[1, 0, 0]] \<rparr>
                            else \<lparr> EM_fields = [] \<rparr>),
       curState_xTime = 0,
       propagator = example_state \<rparr>"

section \<open>Properties of \<open>MatAdd\<close>\<close>

lemma length_fold_update [simp]:
  "length (fold (\<lambda>i ys. ys[g i := f i ys]) xs C) = length C"
  by (induction xs arbitrary: C) simp_all

lemma length_MatAdd_column [simp]:
  "length (MatAdd_column crA crB M ALPHA A locA BETA B locB C locC) = length C"
  by (simp add: MatAdd_column_def)

lemma nth_MatAdd_column:
  assumes "locC + M \<le> length C"
  shows "MatAdd_column crA crB M ALPHA A locA BETA B locB C locC ! k =
           (if locC \<le> k \<and> k < locC + M
            then ALPHA * crA (A ! (locA + (k - locC))) + BETA * crB (B ! (locB + (k - locC)))
            else C ! k)"
  using assms unfolding MatAdd_column_def
proof (induction M)
  case 0
  then show ?case by auto
next
  case (Suc M)
  then show ?case
    by (cases "k = locC + M") (auto simp: nth_list_update)
qed

lemma length_MatAdd_worker [simp]:
  "length (MatAdd_worker crA crB M ALPHA A LDA BETA B LDB LDC n locA locB locC C) = length C"
  by (induction n arbitrary: locA locB locC C) simp_all

lemma MatAdd_column_frame:
  "k < locC \<or> locC + M \<le> k \<Longrightarrow>
     MatAdd_column crA crB M ALPHA A locA BETA B locB C locC ! k = C ! k"
  unfolding MatAdd_column_def by (induction M) auto

lemma MatAdd_worker_frame:
  "k < locC \<Longrightarrow> MatAdd_worker crA crB M ALPHA A LDA BETA B LDB LDC n locA locB locC C ! k = C ! k"
  by (induction n arbitrary: locA locB locC C) (simp_all add: MatAdd_column_frame)

text \<open>
  A worker that runs \<open>n\<close> consecutive iterations from the offsets \<open>locA\<close>, \<open>locB\<close>, \<open>locC\<close>
  computes the columns \<open>0..<n\<close> relative to these offsets, provided the columns of \<open>C\<close> do
  not overlap (\<open>M \<le> LDC\<close>) and lie inside the buffer.
\<close>

lemma nth_MatAdd_worker:
  assumes "M \<le> LDC" and "\<And>j'. j' < n \<Longrightarrow> locC + j' * LDC + M \<le> length C"
    and "i < M" and "j < n"
  shows "MatAdd_worker crA crB M ALPHA A LDA BETA B LDB LDC n locA locB locC C ! (locC + i + j * LDC) =
           ALPHA * crA (A ! (locA + i + j * LDA)) + BETA * crB (B ! (locB + i + j * LDB))"
  using assms
proof (induction n arbitrary: locA locB locC C j)
  case 0
  then show ?case by simp
next
  case (Suc n)
  have in0: "locC + M \<le> length C"
    using Suc.prems(2) [of 0] by simp
  show ?case
  proof (cases j)
    case 0
    have "locC + i < locC + LDC"
      using Suc.prems by simp
    then show ?thesis
      using 0 Suc.prems(3) in0 by (simp add: MatAdd_worker_frame nth_MatAdd_column)
  next
    case (Suc j')
    have bnd: "\<And>j''. j'' < n \<Longrightarrow> (locC + LDC) + j'' * LDC + M
        \<le> length (MatAdd_column crA crB M ALPHA A locA BETA B locB C locC)"
      using Suc.prems(2) by (metis Suc_less_eq add.assoc length_MatAdd_column mult_Suc)
    have "j' < n"
      using Suc Suc.prems by simp
    from Suc.IH [OF Suc.prems(1) bnd Suc.prems(3) this]
    show ?thesis
      using Suc by (simp add: algebra_simps)
  qed
qed

lemma omp_for_static_one [simp]: "omp_for_static (Suc 0) N = [N]"
  by (simp add: omp_for_static_def)

text \<open>
  With a team of one worker \<open>MatAdd\<close> computes the weighted sum of every element of the
  \<open>M\<close> by \<open>N\<close> block.  The element types of \<open>A\<close>, \<open>B\<close> and \<open>C\<close> are independent.
\<close>

lemma MatAdd_one_worker:
  assumes "M \<le> LDC" and "(N - 1) * LDC + M \<le> length C" and "i < M" and "j < N"
  shows "\<exists>C'. MatAdd (Suc 0) crA crB (CHR ''N'') (CHR ''N'') M N ALPHA A LDA BETA B LDB C LDC = Inr C'
           \<and> length C' = length C
           \<and> C' ! (i + j * LDC) = ALPHA * crA (A ! (i + j * LDA)) + BETA * crB (B ! (i + j * LDB))"
proof -
  have bnd: "0 + j' * LDC + M \<le> length C" if "j' < N" for j'
  proof -
    have "j' \<le> N - 1"
      using that by simp
    then have "j' * LDC \<le> (N - 1) * LDC"
      by (rule mult_le_mono1)
    then show ?thesis
      using assms(2) by linarith
  qed
  have "MatAdd_worker crA crB M ALPHA A LDA BETA B LDB LDC N 0 0 0 C ! (0 + i + j * LDC) =
          ALPHA * crA (A ! (0 + i + j * LDA)) + BETA * crB (B ! (0 + i + j * LDB))"
    by (rule nth_MatAdd_worker [OF assms(1) bnd assms(3) assms(4)])
  then show ?thesis
    by (simp add: MatAdd_def MatAdd_region_def)
qed

lemma bindE_Inr [simp]: "bindE (Inr x) f = f x"
  by (simp add: bindE_def)

lemma bindE_Inl [simp]: "bindE (Inl e) f = Inl e"
  by (simp add: bindE_def)

lemma for_each_Inr:
  assumes "\<And>i s. body i s = Inr (g i s)"
  shows "for_each xs body s = Inr (fold g xs s)"
  by (induction xs arbitrary: s) (simp_all add: assms)

lemma length_fill_n [simp]: "length (fill_n F n v) = length F"
  by (simp add: fill_n_def)

lemma fill_n_whole: "length F = n \<Longrightarrow> fill_n F n v = replicate n v"
  by (simp add: fill_n_def)

lemma MatAdd_NN [simp]:
  "MatAdd nthreads crA crB (CHR ''N'') (CHR ''N'') M N ALPHA A LDA BETA B LDB C LDC =
     Inr (MatAdd_region nthreads crA crB M N ALPHA A LDA BETA B LDB C LDC)"
  by (simp add: MatAdd_def)

lemma length_MatAdd_region [simp]:
  "length (MatAdd_region nthreads crA crB M N ALPHA A LDA BETA B LDB C LDC) = length C"
proof -
  have "length (fold (\<lambda>n C'. MatAdd_worker crA crB M ALPHA A LDA BETA B LDB LDC n 0 0 0 C') ns C)
          = length C" for ns
    by (induction ns arbitrary: C) simp_all
  then show ?thesis by (simp add: MatAdd_region_def)
qed

lemma square_index:
  assumes "k < NB * (NB::nat)"
  shows "k mod NB < NB" and "k div NB < NB" and "k mod NB + k div NB * NB = k"
proof -
  have "0 < NB" using assms by (cases NB) simp_all
  then show "k mod NB < NB" by simp
  show "k div NB < NB" using assms by (simp add: less_mult_imp_div_less)
  show "k mod NB + k div NB * NB = k" by simp
qed

lemma MatAdd_region_whole:
  assumes "length A = NB * NB" and "length B = NB * NB" and "length C = NB * NB"
  shows "MatAdd_region (Suc 0) crA crB NB NB ALPHA A NB BETA B NB C NB =
           map2 (\<lambda>a b. ALPHA * crA a + BETA * crB b) A B"
proof (rule nth_equalityI)
  show "length (MatAdd_region (Suc 0) crA crB NB NB ALPHA A NB BETA B NB C NB) =
          length (map2 (\<lambda>a b. ALPHA * crA a + BETA * crB b) A B)"
    using assms by simp
next
  fix k
  assume "k < length (MatAdd_region (Suc 0) crA crB NB NB ALPHA A NB BETA B NB C NB)"
  then have k: "k < NB * NB" using assms by simp
  have bnd: "0 + j' * NB + NB \<le> length C" if "j' < NB" for j'
  proof -
    have "Suc j' * NB \<le> NB * NB" using that by (simp add: Suc_leI mult_le_mono1 del: mult_Suc)
    then show ?thesis using assms by simp
  qed
  have "MatAdd_worker crA crB NB ALPHA A NB BETA B NB NB NB 0 0 0 C ! (0 + k mod NB + k div NB * NB) =
          ALPHA * crA (A ! (0 + k mod NB + k div NB * NB)) + BETA * crB (B ! (0 + k mod NB + k div NB * NB))"
    by (rule nth_MatAdd_worker [OF le_refl bnd square_index(1) [OF k] square_index(2) [OF k]])
  then show "MatAdd_region (Suc 0) crA crB NB NB ALPHA A NB BETA B NB C NB ! k =
          map2 (\<lambda>a b. ALPHA * crA a + BETA * crB b) A B ! k"
    using k assms by (simp add: MatAdd_region_def)
qed

lemma MatAdd_inplace_NN [simp]:
  "MatAdd_inplace team crB (CHR ''N'') (CHR ''N'') M N ALPHA LDA BETA B LDB C LDC =
     Inr (MatAdd_inplace_region team crB M N ALPHA LDA BETA B LDB C LDC)"
  by (simp add: MatAdd_inplace_def)

lemma length_MatAdd_column_inplace [simp]:
  "length (MatAdd_column_inplace crB M ALPHA locA BETA B locB C locC) = length C"
  by (simp add: MatAdd_column_inplace_def)

lemma length_MatAdd_worker_inplace [simp]:
  "length (MatAdd_worker_inplace crB M ALPHA LDA BETA B LDB LDC n locA locB locC C) = length C"
  by (induction n arbitrary: locA locB locC C) simp_all

lemma length_MatAdd_inplace_region [simp]:
  "length (MatAdd_inplace_region team crB M N ALPHA LDA BETA B LDB C LDC) = length C"
proof -
  have "length (fold (\<lambda>n C'. MatAdd_worker_inplace crB M ALPHA LDA BETA B LDB LDC n 0 0 0 C') ns C)
          = length C" for ns
    by (induction ns arbitrary: C) simp_all
  then show ?thesis by (simp add: MatAdd_inplace_region_def)
qed

lemma MatAdd_column_inplace_frame:
  "k < locC \<or> locC + M \<le> k \<Longrightarrow>
     MatAdd_column_inplace crB M ALPHA locA BETA B locB C locC ! k = C ! k"
  unfolding MatAdd_column_inplace_def by (induction M) auto

lemma MatAdd_worker_inplace_frame:
  "k < locC \<Longrightarrow> MatAdd_worker_inplace crB M ALPHA LDA BETA B LDB LDC n locA locB locC C ! k = C ! k"
  by (induction n arbitrary: locA locB locC C) (simp_all add: MatAdd_column_inplace_frame)

lemma nth_MatAdd_column_inplace:
  assumes "loc + M \<le> length C" and "i < M"
  shows "MatAdd_column_inplace crB M ALPHA loc BETA B locB C loc ! (loc + i) =
           ALPHA * C ! (loc + i) + BETA * crB (B ! (locB + i))"
  using assms
proof (induction M)
  case 0
  then show ?case by simp
next
  case (Suc M)
  have step: "MatAdd_column_inplace crB (Suc M) ALPHA loc BETA B locB C loc =
      (MatAdd_column_inplace crB M ALPHA loc BETA B locB C loc)
        [loc + M := ALPHA * MatAdd_column_inplace crB M ALPHA loc BETA B locB C loc ! (loc + M)
                     + BETA * crB (B ! (locB + M))]"
    by (simp add: MatAdd_column_inplace_def)
  show ?case
  proof (cases "i = M")
    case True
    then show ?thesis
      using Suc.prems by (simp add: step MatAdd_column_inplace_frame)
  next
    case False
    then show ?thesis
      using Suc by (simp add: step)
  qed
qed

text \<open>
  One worker on the call with operand and result in the same buffer, at equal leading
  dimensions: every element is read before it is written and written once.
\<close>

lemma nth_MatAdd_worker_inplace:
  assumes "M \<le> LD" and "\<And>j'. j' < n \<Longrightarrow> loc + j' * LD + M \<le> length C"
    and "i < M" and "j < n"
  shows "MatAdd_worker_inplace crB M ALPHA LD BETA B LDB LD n loc locB loc C ! (loc + i + j * LD) =
           ALPHA * C ! (loc + i + j * LD) + BETA * crB (B ! (locB + i + j * LDB))"
  using assms
proof (induction n arbitrary: loc locB C j)
  case 0
  then show ?case by simp
next
  case (Suc n)
  have in0: "loc + M \<le> length C"
    using Suc.prems(2) [of 0] by simp
  show ?case
  proof (cases j)
    case 0
    have "loc + i < loc + LD"
      using Suc.prems by simp
    then show ?thesis
      using 0 Suc.prems(3) in0 by (simp add: MatAdd_worker_inplace_frame nth_MatAdd_column_inplace)
  next
    case (Suc j')
    have bnd: "\<And>j''. j'' < n \<Longrightarrow> (loc + LD) + j'' * LD + M
        \<le> length (MatAdd_column_inplace crB M ALPHA loc BETA B locB C loc)"
      using Suc.prems(2) by (metis Suc_less_eq add.assoc length_MatAdd_column_inplace mult_Suc)
    have j': "j' < n"
      using Suc Suc.prems by simp
    have "loc + M \<le> loc + LD + i + j' * LD"
      using Suc.prems(1) by simp
    then have same: "MatAdd_column_inplace crB M ALPHA loc BETA B locB C loc ! (loc + LD + i + j' * LD)
        = C ! (loc + LD + i + j' * LD)"
      by (simp add: MatAdd_column_inplace_frame)
    from Suc.IH [OF Suc.prems(1) bnd Suc.prems(3) j']
    show ?thesis
      using Suc same by (simp add: algebra_simps)
  qed
qed

lemma MatAdd_inplace_region_whole:
  assumes "length B = NB * NB" and "length C = NB * NB"
  shows "MatAdd_inplace_region (Team (Suc 0) ls) crB NB NB ALPHA NB BETA B NB C NB =
           map2 (\<lambda>a b. ALPHA * a + BETA * crB b) C B"
proof (cases ls)
  case True
  then show ?thesis
    using assms by (simp add: MatAdd_inplace_region_def MatAdd_region_whole)
next
  case False
  show ?thesis
  proof (rule nth_equalityI)
    show "length (MatAdd_inplace_region (Team (Suc 0) ls) crB NB NB ALPHA NB BETA B NB C NB) =
            length (map2 (\<lambda>a b. ALPHA * a + BETA * crB b) C B)"
      using assms by simp
  next
    fix k
    assume "k < length (MatAdd_inplace_region (Team (Suc 0) ls) crB NB NB ALPHA NB BETA B NB C NB)"
    then have k: "k < NB * NB" using assms by simp
    have bnd: "0 + j' * NB + NB \<le> length C" if "j' < NB" for j'
    proof -
      have "Suc j' * NB \<le> NB * NB" using that by (simp add: Suc_leI mult_le_mono1 del: mult_Suc)
      then show ?thesis using assms by simp
    qed
    have "MatAdd_worker_inplace crB NB ALPHA NB BETA B NB NB NB 0 0 0 C ! (0 + k mod NB + k div NB * NB) =
            ALPHA * C ! (0 + k mod NB + k div NB * NB) + BETA * crB (B ! (0 + k mod NB + k div NB * NB))"
      by (rule nth_MatAdd_worker_inplace [OF le_refl bnd square_index(1) [OF k] square_index(2) [OF k]])
    then show "MatAdd_inplace_region (Team (Suc 0) ls) crB NB NB ALPHA NB BETA B NB C NB ! k =
            map2 (\<lambda>a b. ALPHA * a + BETA * crB b) C B ! k"
      using k assms False by (simp add: MatAdd_inplace_region_def)
  qed
qed

lemma fold_update_self:
  "fold (\<lambda>i G. G[i := h i (G ! i)]) [0..<n] G =
     map (\<lambda>i. if i < n then h i (G ! i) else G ! i) [0..<length G]"
proof (induction n)
  case 0
  then show ?case by (simp add: map_nth)
next
  case (Suc n)
  show ?case
    by (rule nth_equalityI) (auto simp: Suc nth_list_update less_Suc_eq)
qed


lemma length_sweep [simp]: "length (sweep M N LDB f B) = length B"
proof -
  have col: "length (fold (\<lambda>i B''. B''[i + j * LDB := f i j (B'' ! (i + j * LDB))]) xs B') = length B'"
    for j xs B'
    by (induction xs arbitrary: B') simp_all
  have "length (fold (\<lambda>j B'. fold (\<lambda>i B''. B''[i + j * LDB := f i j (B'' ! (i + j * LDB))]) [0..<M] B') ys B)
          = length B" for ys
    by (induction ys arbitrary: B) (simp_all add: col)
  then show ?thesis by (simp add: sweep_def)
qed

lemma sweep_Suc:
  "sweep M (Suc N) LDB f B =
     fold (\<lambda>i B''. B''[i + N * LDB := f i N (B'' ! (i + N * LDB))]) [0..<M] (sweep M N LDB f B)"
  by (simp add: sweep_def)

lemma sweep_column_frame:
  "k < off \<or> off + M \<le> k \<Longrightarrow>
     fold (\<lambda>i B''. B''[i + off := g i (B'' ! (i + off))]) [0..<M] B ! k = B ! k"
  by (induction M) auto

lemma nth_sweep_column:
  "off + M \<le> length B \<Longrightarrow> i < M \<Longrightarrow>
     fold (\<lambda>i B''. B''[i + off := g i (B'' ! (i + off))]) [0..<M] B ! (i + off) = g i (B ! (i + off))"
proof (induction M)
  case 0
  then show ?case by simp
next
  case (Suc M)
  show ?case
  proof (cases "i = M")
    case True
    then show ?thesis
      using Suc.prems by (simp add: sweep_column_frame)
  next
    case False
    then show ?thesis
      using Suc by simp
  qed
qed

lemma sweep_frame:
  "M \<le> LDB \<Longrightarrow> N * LDB \<le> k \<Longrightarrow> sweep M N LDB f B ! k = B ! k"
proof (induction N)
  case 0
  then show ?case by (simp add: sweep_def)
next
  case (Suc N)
  then have "k < N * LDB \<or> N * LDB + M \<le> k" and "N * LDB \<le> k"
    by simp_all
  then show ?case
    using Suc.IH [OF Suc.prems(1)]
      sweep_column_frame [of k "N * LDB" M "\<lambda>i. f i N" "sweep M N LDB f B"]
    by (simp add: sweep_Suc)
qed

lemma nth_sweep:
  assumes "M \<le> LDB" and "\<And>j'. j' < N \<Longrightarrow> j' * LDB + M \<le> length B" and "i < M" and "j < N"
  shows "sweep M N LDB f B ! (i + j * LDB) = f i j (B ! (i + j * LDB))"
  using assms(2,4)
proof (induction N)
  case 0
  then show ?case by simp
next
  case (Suc N)
  have inN: "N * LDB + M \<le> length (sweep M N LDB f B)"
    using Suc.prems(1) [of N] by simp
  show ?case
  proof (cases "j = N")
    case True
    then show ?thesis
      using nth_sweep_column [OF inN assms(3), of "\<lambda>i. f i N"] assms(1)
      by (simp add: sweep_Suc sweep_frame)
  next
    case False
    then have j: "j < N" using Suc.prems(2) by simp
    then have "Suc j * LDB \<le> N * LDB"
      by (simp add: Suc_leI mult_le_mono1 del: mult_Suc)
    then have "i + j * LDB < N * LDB \<or> N * LDB + M \<le> i + j * LDB"
      using assms(1,3) by simp
    then show ?thesis
      using Suc.IH [OF Suc.prems(1) j]
        sweep_column_frame [of "i + j * LDB" "N * LDB" M "\<lambda>i. f i N" "sweep M N LDB f B"]
      by (simp add: sweep_Suc)
  qed
qed

lemma sweep_whole:
  assumes "length B = NB * NB"
  shows "sweep NB NB NB f B = map (\<lambda>k. f (k mod NB) (k div NB) (B ! k)) [0..<NB * NB]"
proof (rule nth_equalityI)
  show "length (sweep NB NB NB f B) = length (map (\<lambda>k. f (k mod NB) (k div NB) (B ! k)) [0..<NB * NB])"
    using assms by simp
next
  fix k
  assume "k < length (sweep NB NB NB f B)"
  then have k: "k < NB * NB" using assms by simp
  have bnd: "j' * NB + NB \<le> length B" if "j' < NB" for j'
  proof -
    have "Suc j' * NB \<le> NB * NB" using that by (simp add: Suc_leI mult_le_mono1 del: mult_Suc)
    then show ?thesis using assms by simp
  qed
  have "sweep NB NB NB f B ! (k mod NB + k div NB * NB) = f (k mod NB) (k div NB) (B ! (k mod NB + k div NB * NB))"
    by (rule nth_sweep [OF le_refl bnd square_index(1) [OF k] square_index(2) [OF k]])
  then show "sweep NB NB NB f B ! k = map (\<lambda>k. f (k mod NB) (k div NB) (B ! k)) [0..<NB * NB] ! k"
    using k by simp
qed

lemma GetMatRE_whole:
  assumes "length A = NB * NB" and "length B = NB * NB"
  shows "GetMatRE ty NB NB ALPHA A NB B NB = map (\<lambda>a. ALPHA * real_part ty a) A"
  using assms by (auto simp: GetMatRE_def sweep_whole intro!: nth_equalityI)

lemma SetMatRE_whole:
  assumes "length A = NB * NB" and "length B = NB * NB"
  shows "SetMatRE ty NB NB ALPHA A NB B NB = map2 (\<lambda>a b. SetRE ty (ALPHA * a) b) A B"
  using assms by (auto simp: SetMatRE_def sweep_whole intro!: nth_equalityI)

lemma SetMatIM_whole:
  assumes "length A = NB * NB" and "length B = NB * NB"
  shows "SetMatIM ty NB NB ALPHA A NB B NB = map2 (\<lambda>a b. SetIM ty (ALPHA * a) b) A B"
  using assms by (auto simp: SetMatIM_def sweep_whole intro!: nth_equalityI)

lemma formGD_JContract_eq:
  assumes "length (JScalar s) = nBasis s * nBasis s"
  shows "formGD_JContract ty increment s =
           (if increment \<and> is_same_double ty then map of_real (JScalar s)
            else replicate (nBasis s * nBasis s) 0)"
  using assms by (simp add: formGD_JContract_def Let_def fill_n_whole)

lemma formGD_contract_small:
  "\<bar>xHFX\<bar> \<le> 1 / 10 ^ 12 \<Longrightarrow>
     formGD_contract increment xHFX P NB2 Ks =
       ([\<lparr> X = P ! SCALAR, AX = JContractBuf, HER = True, contType = COULOMB \<rparr>], Ks)"
  by (simp add: formGD_contract_def)

lemma formGD_contract_fold:
  "fold (\<lambda>i (contract, Ks). (contract @ [r i], if z then Ks[i := h i (Ks ! i)] else Ks))
       [0..<n] (c0, Ks0) =
     (c0 @ map r [0..<n], if z then fold (\<lambda>i Ks. Ks[i := h i (Ks ! i)]) [0..<n] Ks0 else Ks0)"
  by (induction n) simp_all

lemma formGD_contract_large:
  "\<bar>xHFX\<bar> > 1 / 10 ^ 12 \<Longrightarrow>
     formGD_contract increment xHFX P NB2 Ks =
       (\<lparr> X = P ! SCALAR, AX = JContractBuf, HER = True, contType = COULOMB \<rparr>
          # map (\<lambda>i. \<lparr> X = P ! i, AX = KBuf i, HER = True, contType = EXCHANGE \<rparr>) [0..<length Ks],
        if \<not> increment then fold (\<lambda>i Ks'. Ks'[i := fill_n (Ks' ! i) NB2 0]) [0..<length Ks] Ks
        else Ks)"
  using formGD_contract_fold [of "\<lambda>i. \<lparr> X = P ! i, AX = KBuf i, HER = True, contType = EXCHANGE \<rparr>"
      "\<not> increment" "\<lambda>i F. fill_n F NB2 0" "length Ks"
      "[\<lparr> X = P ! SCALAR, AX = JContractBuf, HER = True, contType = COULOMB \<rparr>]" Ks]
  by (simp add: formGD_contract_def)

lemma twoBodyContract_Nil [simp]: "twoBodyContract eri [] bufs = bufs"
  by (simp add: twoBodyContract_def)

lemma twoBodyContract_Coulomb [simp]:
  "twoBodyContract eri (\<lparr> X = P0, AX = JContractBuf, HER = h, contType = ct \<rparr> # cs) (J, Ks) =
     twoBodyContract eri cs (accumulate J (eri ct h P0), Ks)"
  by (simp add: twoBodyContract_def)

lemma twoBodyContract_Exchange:
  "twoBodyContract eri (map (\<lambda>i. \<lparr> X = P ! i, AX = KBuf i, HER = h, contType = ct \<rparr>) [0..<n]) (J, Ks) =
     (J, fold (\<lambda>i Ks'. Ks'[i := accumulate (Ks' ! i) (eri ct h (P ! i))]) [0..<n] Ks)"
  by (induction n) (simp_all add: twoBodyContract_def)

lemma length_accumulate [simp]: "length (accumulate dest e) = length dest"
  by (simp add: accumulate_def)

lemma formGD_JScalar_Inr:
  "formGD_JScalar team ty increment NB JC JS =
     Inr (if is_same_double ty then map (real_part ty) JC
          else if \<not> increment then GetMatRE ty NB NB 1 JC NB JS NB
          else GetMatRE ty NB NB 1
                 (MatAdd_inplace_region team of_real NB NB 1 NB 1 JS NB JC NB) NB JS NB)"
  by (simp add: formGD_JScalar_def)

lemma formGD_GD_Inr:
  "formGD_GD team xHFX NB fs Ks JS G =
     Inr (let G' = (if \<bar>xHFX\<bar> > 1 / 10 ^ 12
                    then fold (\<lambda>i G'. G'[i := MatAdd_inplace_region team (\<lambda>x. x) NB NB 0 NB (of_real (- xHFX)) (Ks ! i) NB (G' ! i) NB])
                           [0..<length Ks] G
                    else fold (\<lambda>i G'. G'[i := fill_n (G' ! i) (NB * NB) 0]) [0..<fs] G)
          in G'[SCALAR := MatAdd_inplace_region team of_real NB NB 1 NB 2 JS NB (G' ! SCALAR) NB])"
  by (simp add: formGD_GD_def for_each_Inr Let_def)

lemma length_GetMatRE [simp]: "length (GetMatRE ty M N ALPHA A LDA B LDB) = length B"
  by (simp add: GetMatRE_def)

lemma length_SetMatRE [simp]: "length (SetMatRE ty M N ALPHA A LDA B LDB) = length B"
  by (simp add: SetMatRE_def)

lemma length_SetMatIM [simp]: "length (SetMatIM ty M N ALPHA A LDA B LDB) = length B"
  by (simp add: SetMatIM_def)

lemma wellformedD:
  assumes "wellformed s"
  shows "0 < length (fock s)"
    and "length (GD s) = length (fock s)"
    and "length (K s) = length (fock s)"
    and "length (onePDM s) = length (fock s)"
    and "length (deltaOnePDM s) = length (fock s)"
    and "0 < length (coreH s)"
    and "length (coreH s) \<le> length (fock s)"
    and "length (lenElecDipole s) = 3"
    and "length (JScalar s) = nBasis s * nBasis s"
    and "\<And>i. i < length (fock s) \<Longrightarrow> length (fock s ! i) = nBasis s * nBasis s"
    and "\<And>i. i < length (fock s) \<Longrightarrow> length (GD s ! i) = nBasis s * nBasis s"
    and "\<And>i. i < length (fock s) \<Longrightarrow> length (K s ! i) = nBasis s * nBasis s"
    and "\<And>i. i < length (coreH s) \<Longrightarrow> length (coreH s ! i) = nBasis s * nBasis s"
    and "\<And>i. i < 3 \<Longrightarrow> length (lenElecDipole s ! i) = nBasis s * nBasis s"
  using assms by (simp_all add: wellformed_def Let_def list_all_length)

lemma length_formGD_JContract:
  "length (JScalar s) = nBasis s * nBasis s \<Longrightarrow>
     length (formGD_JContract ty increment s) = nBasis s * nBasis s"
  by (simp add: formGD_JContract_eq)

lemma fold_fill_n_all:
  assumes "n = length G" and "\<And>i. i < n \<Longrightarrow> length (G ! i) = m"
  shows "fold (\<lambda>i G'. G'[i := fill_n (G' ! i) m v]) [0..<n] G = replicate n (replicate m v)"
proof -
  have "fold (\<lambda>i G'. G'[i := fill_n (G' ! i) m v]) [0..<n] G =
          map (\<lambda>i. if i < n then fill_n (G ! i) m v else G ! i) [0..<length G]"
    by (rule fold_update_self [of "\<lambda>i F. fill_n F m v"])
  also have "\<dots> = replicate n (replicate m v)"
    using assms by (auto simp: fill_n_whole intro!: nth_equalityI)
  finally show ?thesis .
qed

lemma formGD_small_Inr:
  assumes "\<bar>xHFX\<bar> \<le> 1 / 10 ^ 12"
  shows "formGD team ty increment xHFX s =
     Inr (let NB = nBasis s;
              JC = accumulate (formGD_JContract ty increment s)
                     (aoints_contract s COULOMB True
                        ((if increment then deltaOnePDM s else onePDM s) ! SCALAR));
              JS = (if is_same_double ty then map (real_part ty) JC
                    else if \<not> increment then GetMatRE ty NB NB 1 JC NB (JScalar s) NB
                    else GetMatRE ty NB NB 1
                           (MatAdd_inplace_region team of_real NB NB 1 NB 1 (JScalar s) NB JC NB)
                           NB (JScalar s) NB);
              G' = fold (\<lambda>i G'. G'[i := fill_n (G' ! i) (NB * NB) 0]) [0..<length (fock s)] (GD s)
          in s\<lparr> K := K s, JScalar := JS,
                GD := G'[SCALAR := MatAdd_inplace_region team of_real NB NB 1 NB 2 JS NB (G' ! SCALAR) NB],
                calls := calls s
                  @ (if is_same_double ty then [] else [Malloc (NB * NB)])
                  @ [TwoBodyContract [(JContractBuf, COULOMB)]]
                  @ (if is_same_double ty then [] else [Free JContractBuf]) \<rparr>)"
  using assms
  by (simp add: formGD_def formGD_contract_small formGD_JScalar_Inr formGD_GD_Inr Let_def)

section \<open>\<open>formGD\<close> and \<open>formFock\<close> keep the state well-formed\<close>

lemma formGD_explicit:
  "formGD team ty increment xHFX s =
     Inr (let NB = nBasis s;
              P = (if increment then deltaOnePDM s else onePDM s);
              JC = accumulate (formGD_JContract ty increment s) (aoints_contract s COULOMB True (P ! SCALAR));
              JS = (if is_same_double ty then map (real_part ty) JC
                    else if \<not> increment then GetMatRE ty NB NB 1 JC NB (JScalar s) NB
                    else GetMatRE ty NB NB 1
                           (MatAdd_inplace_region team of_real NB NB 1 NB 1 (JScalar s) NB JC NB)
                           NB (JScalar s) NB);
              Ks = (if \<bar>xHFX\<bar> > 1 / 10 ^ 12
                    then fold (\<lambda>i Ks'. Ks'[i := accumulate (Ks' ! i) (aoints_contract s EXCHANGE True (P ! i))])
                           [0..<length (K s)]
                           (if \<not> increment
                            then fold (\<lambda>i Ks'. Ks'[i := fill_n (Ks' ! i) (NB * NB) 0]) [0..<length (K s)] (K s)
                            else K s)
                    else K s);
              G' = (if \<bar>xHFX\<bar> > 1 / 10 ^ 12
                    then fold (\<lambda>i G'. G'[i := MatAdd_inplace_region team (\<lambda>x. x) NB NB 0 NB (of_real (- xHFX)) (Ks ! i) NB (G' ! i) NB])
                           [0..<length Ks] (GD s)
                    else fold (\<lambda>i G'. G'[i := fill_n (G' ! i) (NB * NB) 0]) [0..<length (fock s)] (GD s))
          in s\<lparr> K := Ks, JScalar := JS,
                GD := G'[SCALAR := MatAdd_inplace_region team of_real NB NB 1 NB 2 JS NB (G' ! SCALAR) NB],
                calls := calls s
                  @ (if is_same_double ty then [] else [Malloc (NB * NB)])
                  @ [TwoBodyContract ((JContractBuf, COULOMB)
                       # (if \<bar>xHFX\<bar> > 1 / 10 ^ 12
                          then map (\<lambda>i. (KBuf i, EXCHANGE)) [0..<length (K s)] else []))]
                  @ (if is_same_double ty then [] else [Free JContractBuf]) \<rparr>)"
proof (cases "\<bar>xHFX\<bar> > 1 / 10 ^ 12")
  case True
  then show ?thesis
    by (simp add: formGD_def formGD_contract_large twoBodyContract_Exchange
        formGD_JScalar_Inr formGD_GD_Inr Let_def comp_def)
next
  case False
  then show ?thesis
    by (simp add: formGD_small_Inr Let_def)
qed

lemma fold_invariant:
  assumes "Q G" and "\<And>i G'. Q G' \<Longrightarrow> Q (step i G')"
  shows "Q (fold step xs G)"
  using assms(1) by (induction xs arbitrary: G) (simp_all add: assms(2))

lemma shape_update:
  assumes "length G = n \<and> list_all (\<lambda>F. length F = m) G" and "i < n \<Longrightarrow> length v = m"
  shows "length (G[i := v]) = n \<and> list_all (\<lambda>F. length F = m) (G[i := v])"
proof -
  have "length (G[i := v] ! k) = m" if "k < n" for k
  proof (cases "k = i")
    case True
    then show ?thesis using assms that by simp
  next
    case False
    then show ?thesis using assms that by (simp add: list_all_length)
  qed
  then show ?thesis
    using assms(1) by (simp add: list_all_length)
qed

lemma shape_fold_update:
  assumes "length G = n \<and> list_all (\<lambda>F. length F = m) G"
    and "\<And>i F. length (h i F) = length F"
  shows "length (fold (\<lambda>i G'. G'[i := h i (G' ! i)]) xs G) = n
       \<and> list_all (\<lambda>F. length F = m) (fold (\<lambda>i G'. G'[i := h i (G' ! i)]) xs G)"
proof (rule fold_invariant [where Q = "\<lambda>G. length G = n \<and> list_all (\<lambda>F. length F = m) G"])
  show "length G = n \<and> list_all (\<lambda>F. length F = m) G"
    by (rule assms(1))
next
  fix i G'
  assume "length G' = n \<and> list_all (\<lambda>F. length F = m) (G' :: 'a list list)"
  then show "length (G'[i := h i (G' ! i)]) = n \<and> list_all (\<lambda>F. length F = m) (G'[i := h i (G' ! i)])"
    by (intro shape_update) (simp_all add: assms(2) list_all_length)
qed


lemma formGD_wellformed:
  assumes "wellformed s" and "formGD team ty increment xHFX s = Inr s'"
  shows "wellformed s'"
proof -
  define NB where "NB = nBasis s"
  define n where "n = length (fock s)"
  define P where "P = (if increment then deltaOnePDM s else onePDM s)"
  define JC where "JC = accumulate (formGD_JContract ty increment s) (aoints_contract s COULOMB True (P ! SCALAR))"
  define JS where "JS = (if is_same_double ty then map (real_part ty) JC
     else if \<not> increment then GetMatRE ty NB NB 1 JC NB (JScalar s) NB
     else GetMatRE ty NB NB 1
            (MatAdd_inplace_region team of_real NB NB 1 NB 1 (JScalar s) NB JC NB)
            NB (JScalar s) NB)"
  define K0 where "K0 = (if \<not> increment
     then fold (\<lambda>i Ks'. Ks'[i := fill_n (Ks' ! i) (NB * NB) 0]) [0..<length (K s)] (K s)
     else K s)"
  define Ks where "Ks = (if \<bar>xHFX\<bar> > 1 / 10 ^ 12
     then fold (\<lambda>i Ks'. Ks'[i := accumulate (Ks' ! i) (aoints_contract s EXCHANGE True (P ! i))])
            [0..<length (K s)] K0
     else K s)"
  define G' where "G' = (if \<bar>xHFX\<bar> > 1 / 10 ^ 12
     then fold (\<lambda>i G'. G'[i := MatAdd_inplace_region team (\<lambda>x. x) NB NB 0 NB (of_real (- xHFX)) (Ks ! i) NB (G' ! i) NB])
            [0..<length Ks] (GD s)
     else fold (\<lambda>i G'. G'[i := fill_n (G' ! i) (NB * NB) 0]) [0..<length (fock s)] (GD s))"
  define G0 where "G0 = MatAdd_inplace_region team of_real NB NB 1 NB 2 JS NB (G' ! SCALAR) NB"
  have wf: "0 < n" "length (GD s) = n \<and> list_all (\<lambda>F. length F = NB * NB) (GD s)"
    "length (K s) = n \<and> list_all (\<lambda>F. length F = NB * NB) (K s)"
    "length (JScalar s) = NB * NB"
    using assms(1) by (simp_all add: wellformed_def Let_def n_def NB_def)
  have s': "K s' = Ks" "JScalar s' = JS" "GD s' = G'[SCALAR := G0]"
    "nBasis s' = nBasis s" "coreH s' = coreH s" "lenElecDipole s' = lenElecDipole s"
    "onePDM s' = onePDM s" "deltaOnePDM s' = deltaOnePDM s" "fock s' = fock s"
    using assms(2) unfolding formGD_explicit
    by (auto simp: Let_def Ks_def K0_def JS_def JC_def P_def G'_def G0_def NB_def)
  have shK0: "length K0 = n \<and> list_all (\<lambda>F. length F = NB * NB) K0"
    unfolding K0_def using wf(3)
      shape_fold_update [where h = "\<lambda>i F. fill_n F (NB * NB) 0" and G = "K s" and n = n
        and m = "NB * NB" and xs = "[0..<length (K s)]"]
    by simp
  have shKs: "length Ks = n \<and> list_all (\<lambda>F. length F = NB * NB) Ks"
    unfolding Ks_def using wf(3) shK0
      shape_fold_update [where h = "\<lambda>i F. accumulate F (aoints_contract s EXCHANGE True (P ! i))"
        and G = K0 and n = n and m = "NB * NB" and xs = "[0..<length (K s)]"]
    by simp
  have shG': "length G' = n \<and> list_all (\<lambda>F. length F = NB * NB) G'"
    unfolding G'_def using wf(2)
      shape_fold_update [where h = "\<lambda>i F. fill_n F (NB * NB) 0" and G = "GD s" and n = n
        and m = "NB * NB" and xs = "[0..<length (fock s)]"]
      shape_fold_update [where h = "\<lambda>i F. MatAdd_inplace_region team (\<lambda>x. x) NB NB 0 NB (of_real (- xHFX)) (Ks ! i) NB F NB" and G = "GD s" and n = n
        and m = "NB * NB" and xs = "[0..<length Ks]"]
    by simp
  have "length G0 = NB * NB"
    using shG' wf(1) by (simp add: G0_def list_all_length)
  then have shGD: "length (G'[SCALAR := G0]) = n \<and> list_all (\<lambda>F. length F = NB * NB) (G'[SCALAR := G0])"
    using shG' by (intro shape_update) simp_all
  have "length JC = NB * NB"
    using wf(4) by (simp add: JC_def NB_def length_formGD_JContract)
  then have lenJS: "length JS = NB * NB"
    using wf(4) by (simp add: JS_def)
  show ?thesis
    using assms(1) shKs shGD lenJS
    by (simp add: wellformed_def Let_def s' n_def NB_def)
qed

section \<open>Claims on \<open>MatAdd\<close>\<close>

text \<open>
  C1.  The claim: every call \<open>MatAdd('N','N', M, N, ALPHA, A, LDA, BETA, B, LDB, C, LDC)\<close>
  leaves \<open>C[i + j*LDC] = ALPHA*A[i + j*LDA] + BETA*B[i + j*LDB]\<close> for all \<open>i < M\<close>, \<open>j < N\<close>.
  It holds for a team of one worker (\<open>MatAdd_one_worker\<close>).  In a team of two workers
  the second worker is given column 1, but its private pointers still stand at column 0,
  because they are advanced only by the iterations that the worker itself has run: on a
  1 by 2 block with \<open>A = [1, 2]\<close> (\<open>dcomplex\<close>), \<open>B = [10, 20]\<close> (\<open>double\<close>) and
  \<open>ALPHA = BETA = 1\<close> the result is \<open>[11, 0]\<close>: column 1 of \<open>C\<close> is never written and
  is not \<open>1*2 + 1*20\<close>.
\<close>

theorem C1_MatAdd_two_workers:
  "MatAdd 2 (\<lambda>x. x) of_real (CHR ''N'') (CHR ''N'') 1 2 (1::complex) [1, 2] 1 1 [10, 20::real] 1 [0, 0] 1
     = Inr [11, 0]
   \<and> [11, 0::complex] ! (0 + 1 * 1) \<noteq> 1 * [1, 2] ! (0 + 1 * 1) + 1 * of_real ([10, 20::real] ! (0 + 1 * 1))"
  by (simp add: MatAdd_def MatAdd_region_def omp_for_static_def MatAdd_column_def numeral_2_eq_2)

text \<open>
  C9.  The claim: every call of \<open>MatAdd\<close> with \<open>TRANSA\<close> or \<open>TRANSB\<close> other than \<open>'N'\<close>
  violates the assertion.  In a build with \<open>_CQ_MKL\<close> the call on three \<open>double\<close>
  buffers is the specialisation, which has no assertion and passes the flags on.
\<close>

theorem C9_mkl_specialisation_counterexample:
  "MatAdd_double True 1 (CHR ''T'') (CHR ''N'') 1 1 1 [1] 1 1 [1] 1 [0] 1 \<noteq> Inl AssertionViolation"
  by (simp add: MatAdd_double_def)

text \<open>
  C9, amended.  The generic template (every call on buffers of different types, and every
  call in a build without \<open>_CQ_MKL\<close>), also when the first operand is the result buffer,
  violates its assertion exactly when \<open>TRANSA\<close> or \<open>TRANSB\<close> differs from \<open>'N'\<close>, and
  otherwise runs the no-transpose loop.  In a build with \<open>_CQ_MKL\<close> the all-\<open>double\<close> and
  the all-\<open>dcomplex\<close> specialisations have no assertion: they return what \<open>mkl_domatadd\<close>
  and \<open>mkl_zomatadd\<close> compute from the same arguments, transposition flags included.
\<close>

theorem C9_assertion:
  "(MatAdd nthreads crA crB TRANSA TRANSB M N ALPHA A LDA BETA B LDB C LDC = Inl AssertionViolation)
     = (\<not> (TRANSA = CHR ''N'' \<and> TRANSB = CHR ''N''))
   \<and> (MatAdd nthreads crA crB TRANSA TRANSB M N ALPHA A LDA BETA B LDB C LDC
        = Inr (MatAdd_region nthreads crA crB M N ALPHA A LDA BETA B LDB C LDC))
     = (TRANSA = CHR ''N'' \<and> TRANSB = CHR ''N'')
   \<and> (MatAdd_inplace team crB TRANSA TRANSB M N ALPHA LDA BETA B LDB C LDC = Inl AssertionViolation)
     = (\<not> (TRANSA = CHR ''N'' \<and> TRANSB = CHR ''N''))
   \<and> (MatAdd_double False nthreads TRANSA TRANSB M N a A' LDA b B' LDB C' LDC = Inl AssertionViolation)
     = (\<not> (TRANSA = CHR ''N'' \<and> TRANSB = CHR ''N''))
   \<and> (MatAdd_dcomplex False nthreads TRANSA TRANSB M N z Az LDA w Bz LDB Cz LDC = Inl AssertionViolation)
     = (\<not> (TRANSA = CHR ''N'' \<and> TRANSB = CHR ''N''))
   \<and> MatAdd_double True nthreads TRANSA TRANSB M N a A' LDA b B' LDB C' LDC
       = Inr (mkl_domatadd TRANSA TRANSB M N a A' LDA b B' LDB C' LDC)
   \<and> MatAdd_dcomplex True nthreads TRANSA TRANSB M N z Az LDA w Bz LDB Cz LDC
       = Inr (mkl_zomatadd TRANSA TRANSB M N z Az LDA w Bz LDB Cz LDC)"
  by (simp add: MatAdd_def MatAdd_inplace_def MatAdd_double_def MatAdd_dcomplex_def)

theorem C9_assertion_witness:
  "MatAdd 1 (\<lambda>x. x) (\<lambda>x. x) (CHR ''T'') (CHR ''N'') 1 1 (1::real) [1::real] 1 1 [1::real] 1 [0] 1
     = Inl AssertionViolation
   \<and> MatAdd 1 (\<lambda>x. x) (\<lambda>x. x) (CHR ''N'') (CHR ''N'') 1 1 (1::real) [1::real] 1 1 [1::real] 1 [0] 1
     = Inr [2]
   \<and> MatAdd_double True 1 (CHR ''T'') (CHR ''N'') 2 2 1 [1, 2, 3, 4] 2 1 [0, 0, 0, 0] 2 [0, 0, 0, 0] 2
     = Inr [1, 3, 2, 4]"
proof -
  have up: "[0..<2] = [0, 1]"
    by (simp add: upt_rec)
  have mkl: "mkl_domatadd (CHR ''T'') (CHR ''N'') 2 2 1 [1, 2, 3, 4] 2 1 [0, 0, 0, 0] 2 [0, 0, 0, 0] 2
      = [1, 3, 2, 4]"
    by (simp add: mkl_domatadd_def mkl_op_def up)
  have "MatAdd 1 (\<lambda>x. x) (\<lambda>x. x) (CHR ''T'') (CHR ''N'') 1 1 (1::real) [1::real] 1 1 [1::real] 1 [0] 1
      = Inl AssertionViolation"
    using C9_assertion [of 1 "\<lambda>x. x" "\<lambda>x. x" "CHR ''T''" "CHR ''N''" 1 1 "1::real" "[1::real]" 1 1
        "[1::real]" 1 "[0]" 1, THEN conjunct1]
    by simp
  moreover have "MatAdd 1 (\<lambda>x. x) (\<lambda>x. x) (CHR ''N'') (CHR ''N'') 1 1 (1::real) [1::real] 1 1 [1::real] 1 [0] 1
      = Inr [2]"
    using C9_assertion [of 1 "\<lambda>x. x" "\<lambda>x. x" "CHR ''N''" "CHR ''N''" 1 1 "1::real" "[1::real]" 1 1
        "[1::real]" 1 "[0]" 1, THEN conjunct2, THEN conjunct1]
    by (simp add: MatAdd_region_def omp_for_static_def MatAdd_column_def)
  moreover have "MatAdd_double True 1 (CHR ''T'') (CHR ''N'') 2 2 1 [1, 2, 3, 4] 2 1 [0, 0, 0, 0] 2
      [0, 0, 0, 0] 2 = Inr [1, 3, 2, 4]"
    using C9_assertion [where nthreads = 1 and TRANSA = "CHR ''T''" and TRANSB = "CHR ''N''" and M = 2
        and N = 2 and a = 1 and A' = "[1, 2, 3, 4]" and LDA = 2 and b = 1 and B' = "[0, 0, 0, 0]"
        and LDB = 2 and C' = "[0, 0, 0, 0]" and LDC = 2,
        THEN conjunct2, THEN conjunct2, THEN conjunct2, THEN conjunct2, THEN conjunct2, THEN conjunct1]
    by (simp only: mkl)
  ultimately show ?thesis
    by simp
qed

section \<open>Claims on \<open>formGD\<close>\<close>

lemma formFock_GD_Inr:
  "formFock_GD team NB G F =
     Inr (fold (\<lambda>i F'. F'[i := MatAdd_inplace_region team (\<lambda>x. x) NB NB 1 NB 1 (G ! i) NB (F' ! i) NB]) [0..<length F] F)"
  by (simp add: formFock_GD_def for_each_Inr)

lemma formFock_pert_Inr:
  "formFock_pert team NB dip p F =
     Inr (if EM_fields p \<noteq> []
          then fold (\<lambda>iXYZ F'.
                  if \<bar>getAmp p ! iXYZ\<bar> > double_1e_10
                  then F'[0 := MatAdd_inplace_region team of_real NB NB 1 NB (of_real (- 2 * getAmp p ! iXYZ)) (dip ! iXYZ) NB (F' ! 0) NB]
                  else F') [0..<3] F
          else F)"
proof -
  have body: "(if \<bar>getAmp p ! iXYZ\<bar> > double_1e_10
               then bindE (MatAdd_inplace team of_real (CHR ''N'') (CHR ''N'') NB NB
                             1 NB (of_real (- 2 * getAmp p ! iXYZ)) (dip ! iXYZ) NB (F' ! 0) NB)
                      (\<lambda>F0. Inr (F'[0 := F0]))
               else Inr F') =
              Inr (if \<bar>getAmp p ! iXYZ\<bar> > double_1e_10
                   then F'[0 := MatAdd_inplace_region team of_real NB NB 1 NB (of_real (- 2 * getAmp p ! iXYZ)) (dip ! iXYZ) NB (F' ! 0) NB]
                   else F')" for iXYZ and F' :: "'a list list"
    by simp
  show ?thesis
    unfolding formFock_pert_def Let_def
    by (simp only: body for_each_Inr if_distrib [of Inr, symmetric])
qed

lemma formGD_Inr: "\<exists>s'. formGD team ty increment xHFX s = Inr s'"
  by (simp add: formGD_def formGD_JScalar_Inr formGD_GD_Inr Let_def split: prod.split)

lemma formGD_frame:
  assumes "formGD team ty increment xHFX s = Inr s'"
  shows "nBasis s' = nBasis s" and "coreH s' = coreH s" and "lenElecDipole s' = lenElecDipole s"
    and "aoints_contract s' = aoints_contract s" and "memManager s' = memManager s"
    and "onePDM s' = onePDM s" and "deltaOnePDM s' = deltaOnePDM s" and "fock s' = fock s"
  using assms
  by (auto simp: formGD_def formGD_JScalar_Inr formGD_GD_Inr Let_def split: prod.splits)

lemma formFock_Inr:
  "\<exists>s1. formGD team ty increment xHFX s = Inr s1
     \<and> formFock team ty p increment xHFX s =
         Inr (s1\<lparr> fock :=
                   (if EM_fields p \<noteq> []
                    then fold (\<lambda>iXYZ F'.
                      if \<bar>getAmp p ! iXYZ\<bar> > double_1e_10
                      then F'[0 := MatAdd_inplace_region team of_real (nBasis s1) (nBasis s1) 1 (nBasis s1) (of_real (- 2 * getAmp p ! iXYZ)) (lenElecDipole s1 ! iXYZ) (nBasis s1) (F' ! 0) (nBasis s1)]
                      else F') [0..<3]
                    else (\<lambda>F. F))
                     (fold (\<lambda>i F'. F'[i := MatAdd_inplace_region team (\<lambda>x. x) (nBasis s1) (nBasis s1) 1 (nBasis s1) 1 (GD s1 ! i) (nBasis s1) (F' ! i) (nBasis s1)])
                        [0..<length (formFock_coreH ty s1)] (formFock_coreH ty s1)),
                  calls := calls s1 @ (if EM_fields p \<noteq> [] then [GetAmp] else []) \<rparr>)"
proof -
  obtain s1 where s1: "formGD team ty increment xHFX s = Inr s1"
    using formGD_Inr by blast
  show ?thesis
    using s1 by (simp add: formFock_def formFock_GD_Inr formFock_pert_Inr)
qed

text \<open>
  C10.  With \<open>|xHFX| \<le> 1e-12\<close>, \<open>formGD\<close> (and \<open>formFock\<close>, which calls it) returns and
  leaves every exchange buffer \<open>K[i]\<close> as it was, for every scalar type, every value of
  \<open>increment\<close> and every team of workers.
\<close>

theorem C10_K_unchanged:
  assumes "\<bar>xHFX\<bar> \<le> 1 / 10 ^ 12"
  shows "(\<exists>s'. formGD team ty increment xHFX s = Inr s' \<and> K s' = K s)
       \<and> (\<exists>s''. formFock team ty p increment xHFX s = Inr s'' \<and> K s'' = K s)"
proof -
  obtain s1 where s1: "formGD team ty increment xHFX s = Inr s1"
    using formGD_Inr by blast
  have K1: "K s1 = K s"
    using s1 formGD_small_Inr [OF assms, of team ty increment s] by (auto simp: Let_def)
  obtain s2 where "formFock team ty p increment xHFX s = Inr s2" and "K s2 = K s1"
    using formFock_Inr [of team ty increment xHFX s p] s1 by auto
  then show ?thesis
    using s1 K1 by simp
qed


lemma wellformed_example_state: "wellformed example_state"
  by (simp add: wellformed_def example_state_def)

lemma wellformed_example_state_double: "wellformed example_state_double"
  by (simp add: wellformed_def example_state_double_def)

theorem C10_K_unchanged_witness:
  "\<bar>0::real\<bar> \<le> 1 / 10 ^ 12
   \<and> (\<exists>s'. formGD (Team 2 False) dcomplex_type True 0 example_state = Inr s' \<and> K s' = K example_state)
   \<and> (\<exists>s''. formFock (Team 2 False) dcomplex_type \<lparr> EM_fields = [] \<rparr> True 0 example_state = Inr s''
          \<and> K s'' = K example_state)"
proof -
  have x: "\<bar>0::real\<bar> \<le> 1 / 10 ^ 12"
    by simp
  show ?thesis
    using x C10_K_unchanged [OF x, of "Team 2 False" dcomplex_type True example_state "\<lparr> EM_fields = [] \<rparr>"]
    by blast
qed

lemma map2_replicate_zero:
  assumes "length JS = m"
  shows "map2 (\<lambda>a b. a + c * of_real b) (replicate m (0::'a::real_algebra_1)) JS =
           map (\<lambda>j. c * of_real j) JS"
  using assms by (auto intro!: nth_equalityI)

lemma formGD_small_K:
  assumes "\<bar>xHFX\<bar> \<le> 1 / 10 ^ 12"
  shows "formGD team ty increment xHFX (s\<lparr> K := Ks \<rparr>) =
           (case formGD team ty increment xHFX s of
              Inl e \<Rightarrow> Inl e | Inr s' \<Rightarrow> Inr (s'\<lparr> K := Ks \<rparr>))"
  by (simp add: formGD_small_Inr [OF assms] Let_def formGD_JContract_def)

text \<open>
  One worker: with \<open>|xHFX| \<le> 1e-12\<close> \<open>formGD\<close> returns, the only
  contraction request it issues is the Coulomb one, the scalar component of \<open>GD\<close> is
  \<open>2*JScalar\<close>, every other component of \<open>GD\<close> is zero, and \<open>GD\<close> and \<open>JScalar\<close> are the same
  whatever the \<open>K\<close> buffers held.
\<close>

lemma formGD_one_worker_GD_is_2J:
  assumes "wellformed s" and "\<bar>xHFX\<bar> \<le> 1 / 10 ^ 12"
  shows "\<exists>s'. formGD (Team 1 ls) ty increment xHFX s = Inr s'
           \<and> calls s' = calls s
                @ (if is_same_double ty then [] else [Malloc (nBasis s * nBasis s)])
                @ [TwoBodyContract [(JContractBuf, COULOMB)]]
                @ (if is_same_double ty then [] else [Free JContractBuf])
           \<and> length (GD s') = length (GD s)
           \<and> GD s' ! SCALAR = map (\<lambda>j. 2 * of_real j) (JScalar s')
           \<and> (\<forall>i. 0 < i \<and> i < length (GD s) \<longrightarrow> GD s' ! i = replicate (nBasis s * nBasis s) 0)
           \<and> (\<forall>Ks. \<exists>s''. formGD (Team 1 ls) ty increment xHFX (s\<lparr> K := Ks \<rparr>) = Inr s''
                  \<and> GD s'' = GD s' \<and> JScalar s'' = JScalar s')"
proof -
  define NB where "NB = nBasis s"
  define JC where "JC = accumulate (formGD_JContract ty increment s)
     (aoints_contract s COULOMB True ((if increment then deltaOnePDM s else onePDM s) ! SCALAR))"
  define JS where "JS = (if is_same_double ty then map (real_part ty) JC
     else if \<not> increment then GetMatRE ty NB NB 1 JC NB (JScalar s) NB
     else GetMatRE ty NB NB 1
            (MatAdd_inplace_region (Team (Suc 0) ls) of_real NB NB 1 NB 1 (JScalar s) NB JC NB)
            NB (JScalar s) NB)"
  define G' where "G' = fold (\<lambda>i G'. G'[i := fill_n (G' ! i) (NB * NB) 0]) [0..<length (fock s)] (GD s)"
  define s' where "s' = s\<lparr> K := K s, JScalar := JS,
     GD := G'[SCALAR := MatAdd_inplace_region (Team (Suc 0) ls) of_real NB NB 1 NB 2 JS NB (G' ! SCALAR) NB],
     calls := calls s
       @ (if is_same_double ty then [] else [Malloc (NB * NB)])
       @ [TwoBodyContract [(JContractBuf, COULOMB)]]
       @ (if is_same_double ty then [] else [Free JContractBuf]) \<rparr>"
  note wf = wellformedD [OF assms(1)]
  have run: "formGD (Team 1 ls) ty increment xHFX s = Inr s'"
    by (simp add: formGD_small_Inr [OF assms(2)] Let_def s'_def G'_def JS_def JC_def NB_def)
  have lenJC: "length JC = NB * NB"
    by (simp add: JC_def NB_def length_formGD_JContract wf(9))
  have lenJS: "length JS = NB * NB"
    using lenJC wf(9) by (simp add: JS_def NB_def)
  have "fold (\<lambda>i G'. G'[i := fill_n (G' ! i) (NB * NB) 0]) [0..<length (fock s)] (GD s)
      = replicate (length (fock s)) (replicate (NB * NB) 0)"
    by (rule fold_fill_n_all) (simp_all add: wf(2,11) NB_def)
  then have G': "G' = replicate (length (GD s)) (replicate (NB * NB) 0)"
    by (simp add: G'_def wf(2))
  have G0: "G' ! SCALAR = replicate (NB * NB) 0"
    using G' wf(1,2) by simp
  have scalar: "MatAdd_inplace_region (Team (Suc 0) ls) of_real NB NB 1 NB 2 JS NB (G' ! SCALAR) NB
      = map (\<lambda>j. 2 * of_real j) JS"
    using lenJS by (simp add: G0 MatAdd_inplace_region_whole map2_replicate_zero)
  have GD': "GD s' = (replicate (length (GD s)) (replicate (NB * NB) 0))[SCALAR := map (\<lambda>j. 2 * of_real j) JS]"
    by (simp add: s'_def scalar) (simp add: G')
  have other: "\<exists>s''. formGD (Team 1 ls) ty increment xHFX (s\<lparr> K := Ks \<rparr>) = Inr s''
      \<and> GD s'' = GD s' \<and> JScalar s'' = JScalar s'" for Ks
    using run by (simp add: formGD_small_K [OF assms(2)])
  have "GD s' ! SCALAR = map (\<lambda>j. 2 * of_real j) (JScalar s')"
    using wf(1,2) by (simp add: GD') (simp add: s'_def)
  moreover have "\<forall>i. 0 < i \<and> i < length (GD s) \<longrightarrow> GD s' ! i = replicate (nBasis s * nBasis s) 0"
    by (simp add: GD' NB_def)
  moreover have "length (GD s') = length (GD s)"
    by (simp add: GD')
  moreover have "calls s' = calls s
                @ (if is_same_double ty then [] else [Malloc (nBasis s * nBasis s)])
                @ [TwoBodyContract [(JContractBuf, COULOMB)]]
                @ (if is_same_double ty then [] else [Free JContractBuf])"
    by (simp add: s'_def NB_def)
  ultimately show ?thesis
    using run other by blast
qed


text \<open>
  C2.  The claim: after every call of \<open>formGD\<close> with \<open>|xHFX| \<le> 1e-12\<close>, \<open>G[D]\<close> equals
  \<open>2*J[D]\<close>.  It holds with one worker (\<open>formGD_one_worker_GD_is_2J\<close>).  With two workers
  on two basis functions (\<open>T = dcomplex\<close>, \<open>increment = false\<close>, \<open>xHFX = 0\<close>) the last
  \<open>MatAdd\<close> of \<open>formGD\<close> adds \<open>2*JScalar\<close> to column 0 of \<open>GD[SCALAR]\<close> only, once or twice
  according to the interleaving, and never to column 1: \<open>GD[SCALAR]\<close> is \<open>[8, 0, 0, 0]\<close> if the
  workers run one after the other and \<open>[4, 0, 0, 0]\<close> if they run in lock step, while
  \<open>2*JScalar\<close> is \<open>[4, 0, 0, 4]\<close>.
\<close>

theorem C2_two_workers:
  "map_sum id (\<lambda>s'. (GD s' ! SCALAR, map (\<lambda>j. 2 * complex_of_real j) (JScalar s')))
     (formGD (Team 2 False) dcomplex_type False 0 example_state) = Inr ([8, 0, 0, 0], [4, 0, 0, 4])
   \<and> map_sum id (\<lambda>s'. (GD s' ! SCALAR, map (\<lambda>j. 2 * complex_of_real j) (JScalar s')))
     (formGD (Team 2 True) dcomplex_type False 0 example_state) = Inr ([4, 0, 0, 0], [4, 0, 0, 4])"
  by code_simp

lemma formGD_JScalar_of:
  assumes "formGD team ty increment xHFX s = Inr s'"
  shows "Inr (JScalar s') =
           formGD_JScalar team ty increment (nBasis s)
             (accumulate (formGD_JContract ty increment s)
                (aoints_contract s COULOMB True
                   ((if increment then deltaOnePDM s else onePDM s) ! SCALAR)))
             (JScalar s)"
    and "calls s' = calls s
           @ (if is_same_double ty then [] else [Malloc (nBasis s * nBasis s)])
           @ [TwoBodyContract ((JContractBuf, COULOMB)
                # (if \<bar>xHFX\<bar> > 1 / 10 ^ 12 then map (\<lambda>i. (KBuf i, EXCHANGE)) [0..<length (K s)]
                   else []))]
           @ (if is_same_double ty then [] else [Free JContractBuf])"
proof -
  show "Inr (JScalar s') =
           formGD_JScalar team ty increment (nBasis s)
             (accumulate (formGD_JContract ty increment s)
                (aoints_contract s COULOMB True
                   ((if increment then deltaOnePDM s else onePDM s) ! SCALAR)))
             (JScalar s)"
  proof (cases "\<bar>xHFX\<bar> > 1 / 10 ^ 12")
    case True
    then show ?thesis
      using assms
      by (auto simp: formGD_def formGD_contract_large twoBodyContract_Exchange
          formGD_JScalar_Inr formGD_GD_Inr Let_def simp del: fold_simps)
  next
    case False
    then show ?thesis
      using assms by (auto simp: formGD_small_Inr formGD_JScalar_Inr Let_def)
  qed
  show "calls s' = calls s
           @ (if is_same_double ty then [] else [Malloc (nBasis s * nBasis s)])
           @ [TwoBodyContract ((JContractBuf, COULOMB)
                # (if \<bar>xHFX\<bar> > 1 / 10 ^ 12 then map (\<lambda>i. (KBuf i, EXCHANGE)) [0..<length (K s)]
                   else []))]
           @ (if is_same_double ty then [] else [Free JContractBuf])"
  proof (cases "\<bar>xHFX\<bar> > 1 / 10 ^ 12")
    case True
    then show ?thesis
      using assms
      by (auto simp: formGD_def formGD_contract_large twoBodyContract_Exchange
          formGD_JScalar_Inr formGD_GD_Inr Let_def comp_def)
  next
    case False
    then show ?thesis
      using assms by (auto simp: formGD_small_Inr formGD_JScalar_Inr Let_def)
  qed
qed


lemma accumulate_zero:
  "accumulate (replicate m (0::'a::monoid_add)) e = map e [0..<m]"
  by (auto simp: accumulate_def intro!: nth_equalityI)



text \<open>
  One worker: for \<open>T = dcomplex\<close> \<open>formGD\<close> takes a block of
  \<open>NB*NB\<close> elements from the allocator, issues the contraction and releases the block
  before it returns; afterwards \<open>JScalar\<close> holds the real part of the Coulomb contraction,
  added to its prior content if \<open>increment\<close> is true and in place of it otherwise.
\<close>

lemma formGD_one_worker_JScalar:
  assumes "length (JScalar s) = nBasis s * nBasis s"
  shows "\<exists>s'. formGD (Team 1 ls) dcomplex_type increment xHFX s = Inr s'
           \<and> (\<exists>requests. calls s' = calls s
                  @ [Malloc (nBasis s * nBasis s), TwoBodyContract requests, Free JContractBuf])
           \<and> JScalar s' = map (\<lambda>k. (if increment then JScalar s ! k else 0)
                   + Re (aoints_contract s COULOMB True
                           ((if increment then deltaOnePDM s else onePDM s) ! SCALAR) k))
                 [0..<nBasis s * nBasis s]"
proof -
  obtain s' where s': "formGD (Team 1 ls) dcomplex_type increment xHFX s = Inr s'"
    using formGD_Inr by blast
  have nd: "\<not> is_same_double dcomplex_type" and re: "real_part dcomplex_type = Re"
    by (simp_all add: dcomplex_type_def)
  have "JScalar s' = map (\<lambda>k. (if increment then JScalar s ! k else 0)
                   + Re (aoints_contract s COULOMB True
                           ((if increment then deltaOnePDM s else onePDM s) ! SCALAR) k))
                 [0..<nBasis s * nBasis s]"
    using formGD_JScalar_of(1) [OF s'] assms nd re
    by (auto simp: formGD_JScalar_Inr formGD_JContract_eq accumulate_zero GetMatRE_whole
        MatAdd_inplace_region_whole intro!: nth_equalityI)
  moreover have "\<exists>requests. calls s' = calls s
                  @ [Malloc (nBasis s * nBasis s), TwoBodyContract requests, Free JContractBuf]"
    using formGD_JScalar_of(2) [OF s'] nd by simp
  ultimately show ?thesis
    using s' by blast
qed

text \<open>
  C8.  The claim: for a complex scalar type the real content of the transient buffer is
  folded back into \<open>JScalar\<close>, added to the prior content of \<open>JScalar\<close> if \<open>increment\<close> is
  true.  It holds with one worker (\<open>formGD_one_worker_JScalar\<close>).  With two workers on
  two basis functions and \<open>increment = true\<close> the \<open>MatAdd\<close> that adds the prior \<open>JScalar\<close>
  to the transient buffer reaches column 0 only: \<open>JScalar\<close> becomes \<open>[2, 6, 2, 0]\<close> if the
  workers run one after the other and \<open>[1, 4, 2, 0]\<close> if they run in lock step; the prior
  content of column 1 is lost in both.  The prior content plus the real part of the
  contraction is \<open>[1, 4, 5, 4]\<close>.
\<close>

theorem C8_two_workers:
  "map_sum id JScalar (formGD (Team 2 False) dcomplex_type True 1 example_state) = Inr [2, 6, 2, 0]
   \<and> map_sum id JScalar (formGD (Team 2 True) dcomplex_type True 1 example_state) = Inr [1, 4, 2, 0]
   \<and> map (\<lambda>k. JScalar example_state ! k
              + Re (aoints_contract example_state COULOMB True (deltaOnePDM example_state ! SCALAR) k))
         [0..<nBasis example_state * nBasis example_state] = [1, 4, 5, 4]"
  by code_simp

section \<open>Claims on the time-dependent coupling\<close>

lemma RealTime_formFock_forwards:
  "RealTime_formFock team ty xHFX increment t rt =
     bindE (formFock team ty (pert_getPert rt (curState_xTime rt)) increment xHFX (propagator rt))
       (\<lambda>ss. Inr (rt\<lparr> propagator := ss \<rparr>))"
  by (simp add: RealTime_formFock_def RealTime_formFock_args_def)

text \<open>
  C3.  The claim: the descriptor forwarded by \<open>RealTime::formFock(increment, t)\<close> is the
  perturbation evaluated at the time \<open>t\<close> supplied by the caller.  The routine does not
  use \<open>t\<close>: it evaluates the perturbation at \<open>curState.xTime\<close>.  With the current state at
  time \<open>0\<close>, a field switched on at time \<open>1/2\<close> and the call \<open>formFock(true, 1)\<close>, the
  descriptor forwarded is the empty one of time \<open>0\<close>, not the field of time \<open>1\<close>; the
  increment flag is forwarded unchanged.
\<close>

theorem C3_getPert_ignores_t:
  "RealTime_formFock_args example_RealTime True 1 = (\<lparr> EM_fields = [] \<rparr>, True)
   \<and> pert_getPert example_RealTime 1 = \<lparr> EM_fields = [[1, 0, 0]] \<rparr>
   \<and> fst (RealTime_formFock_args example_RealTime True 1) \<noteq> pert_getPert example_RealTime 1"
  by (simp add: RealTime_formFock_args_def example_RealTime_def)

section \<open>The phases of \<open>formFock\<close> on a well-formed state\<close>

lemma fold_update_range:
  "fold (\<lambda>i G. G[i := h i (G ! i)]) [a..<b] G =
     map (\<lambda>i. if a \<le> i \<and> i < b then h i (G ! i) else G ! i) [0..<length G]"
proof (induction b)
  case 0
  then show ?case by (simp add: map_nth)
next
  case (Suc b)
  show ?case
  proof (cases "a \<le> b")
    case True
    then show ?thesis
      by (intro nth_equalityI) (auto simp: Suc nth_list_update less_Suc_eq)
  next
    case False
    then show ?thesis
      by (intro nth_equalityI) (auto simp: map_nth)
  qed
qed

lemma map_fill_n_all:
  assumes "list_all (\<lambda>F. length F = m) Fs"
  shows "map (\<lambda>F. fill_n F m v) Fs = replicate (length Fs) (replicate m v)"
  using assms by (auto simp: list_all_length fill_n_whole intro!: nth_equalityI)

lemma formFock_coreH_wf:
  assumes "wellformed s"
  shows "formFock_coreH ty s =
           map (\<lambda>i. if i = SCALAR then map (\<lambda>h. SetRE ty h 0) (coreH s ! SCALAR)
                     else if i < length (coreH s) then map (\<lambda>h. SetIM ty h 0) (coreH s ! i)
                     else replicate (nBasis s * nBasis s) 0)
             [0..<length (fock s)]"
proof -
  define NB where "NB = nBasis s"
  define n where "n = length (fock s)"
  define F0 :: "'a list list" where "F0 = replicate n (replicate (NB * NB) 0)"
  define F1 where "F1 = F0[SCALAR := SetMatRE ty NB NB 1 (coreH s ! SCALAR) NB (F0 ! SCALAR) NB]"
  note wf = wellformedD [OF assms]
  have F0: "map (\<lambda>F. fill_n F (NB * NB) 0) (fock s) = F0"
    using assms by (simp add: F0_def n_def NB_def map_fill_n_all wellformed_def Let_def)
  have re: "SetMatRE ty NB NB 1 (coreH s ! SCALAR) NB (replicate (NB * NB) 0) NB
      = map (\<lambda>h. SetRE ty h 0) (coreH s ! SCALAR)"
    using wf(6) wf(13) [of 0]
    by (auto simp: NB_def SetMatRE_whole intro!: nth_equalityI)
  have lenF1: "length F1 = n"
    by (simp add: F1_def F0_def)
  have F1nth: "F1 ! i = (if i = 0 then map (\<lambda>h. SetRE ty h 0) (coreH s ! SCALAR)
      else replicate (NB * NB) 0)" if "i < n" for i
    using that by (simp add: F1_def F0_def nth_list_update re)
  have im: "SetMatIM ty NB NB 1 (coreH s ! i) NB (replicate (NB * NB) 0) NB
      = map (\<lambda>h. SetIM ty h 0) (coreH s ! i)"
    if "i < length (coreH s)" for i
    using that wf(13) [of i]
    by (auto simp: NB_def SetMatIM_whole intro!: nth_equalityI)
  have "formFock_coreH ty s =
      fold (\<lambda>i F. F[i := SetMatIM ty NB NB 1 (coreH s ! i) NB (F ! i) NB]) [1..<length (coreH s)] F1"
    by (simp add: formFock_coreH_def Let_def F0 F1_def NB_def [symmetric])
  also have "\<dots> = map (\<lambda>i. if 1 \<le> i \<and> i < length (coreH s)
                           then SetMatIM ty NB NB 1 (coreH s ! i) NB (F1 ! i) NB else F1 ! i)
                      [0..<length F1]"
    by (rule fold_update_range [of "\<lambda>i F. SetMatIM ty NB NB 1 (coreH s ! i) NB F NB"])
  also have "\<dots> = map (\<lambda>i. if i = SCALAR then map (\<lambda>h. SetRE ty h 0) (coreH s ! SCALAR)
                     else if i < length (coreH s) then map (\<lambda>h. SetIM ty h 0) (coreH s ! i)
                     else replicate (NB * NB) 0) [0..<n]"
    using wf(7) by (intro nth_equalityI) (auto simp: lenF1 F1nth im n_def)
  finally show ?thesis
    by (simp add: n_def NB_def)
qed

lemma formFock_GD_wf:
  assumes "length F = n" and "length G = n"
    and "\<And>i. i < n \<Longrightarrow> length (F ! i) = NB * NB"
    and "\<And>i. i < n \<Longrightarrow> length (G ! i) = NB * NB"
  shows "formFock_GD (Team (Suc 0) ls) NB G F = Inr (map (\<lambda>i. map2 (\<lambda>a b. a + b) (F ! i) (G ! i)) [0..<n])"
proof -
  have "fold (\<lambda>i F'. F'[i := MatAdd_inplace_region (Team (Suc 0) ls) (\<lambda>x. x) NB NB 1 NB 1 (G ! i) NB (F' ! i) NB]) [0..<length F] F
      = map (\<lambda>i. if i < length F
                  then MatAdd_inplace_region (Team (Suc 0) ls) (\<lambda>x. x) NB NB 1 NB 1 (G ! i) NB (F ! i) NB
                  else F ! i) [0..<length F]"
    by (rule fold_update_self [of "\<lambda>i F'. MatAdd_inplace_region (Team (Suc 0) ls) (\<lambda>x. x) NB NB 1 NB 1 (G ! i) NB F' NB"])
  also have "\<dots> = map (\<lambda>i. map2 (\<lambda>a b. a + b) (F ! i) (G ! i)) [0..<n]"
    using assms by (auto simp: MatAdd_inplace_region_whole intro!: nth_equalityI)
  finally show ?thesis
    by (simp add: formFock_GD_Inr)
qed


section \<open>Claims on \<open>formFock\<close>\<close>

text \<open>
  One worker: in every call of \<open>formFock\<close> for \<open>T = dcomplex\<close>, the
  Fock buffers \<open>F\<close> that reach the perturbation step do not depend on the former content
  of \<open>fock\<close>: the scalar component holds the scalar core Hamiltonian in its real part,
  every further component that has a core-Hamiltonian component holds that one in its
  imaginary part, and \<open>GD\<close> is added elementwise onto every component.
\<close>

lemma formFock_one_worker_coreH_plus_GD:
  assumes "wellformed s"
  shows "\<exists>s1 F. formGD (Team 1 ls) dcomplex_type increment xHFX s = Inr s1
     \<and> formFock_GD (Team 1 ls) (nBasis s1) (GD s1) (formFock_coreH dcomplex_type s1) = Inr F
     \<and> formFock (Team 1 ls) dcomplex_type p increment xHFX s =
         bindE (formFock_pert (Team 1 ls) (nBasis s1) (lenElecDipole s1) p F)
           (\<lambda>F'. Inr (s1\<lparr> fock := F',
                           calls := calls s1 @ (if EM_fields p \<noteq> [] then [GetAmp] else []) \<rparr>))
     \<and> length F = length (fock s)
     \<and> F ! SCALAR = map2 (\<lambda>h g. Complex h 0 + g) (coreH s ! SCALAR) (GD s1 ! SCALAR)
     \<and> (\<forall>i. 0 < i \<and> i < length (coreH s) \<longrightarrow>
           F ! i = map2 (\<lambda>h g. Complex 0 h + g) (coreH s ! i) (GD s1 ! i))
     \<and> (\<forall>i. length (coreH s) \<le> i \<and> i < length (fock s) \<longrightarrow> F ! i = GD s1 ! i)"
proof -
  obtain s1 where s1: "formGD (Team 1 ls) dcomplex_type increment xHFX s = Inr s1"
    using formGD_Inr by blast
  have wf1: "wellformed s1"
    using assms s1 by (rule formGD_wellformed)
  note wf = wellformedD [OF wf1]
  note fr = formGD_frame [OF s1]
  define n where "n = length (fock s)"
  define NB where "NB = nBasis s"
  define C where "C = map (\<lambda>i. if i = SCALAR then map (\<lambda>h. Complex h 0) (coreH s ! SCALAR)
                     else if i < length (coreH s) then map (\<lambda>h. Complex 0 h) (coreH s ! i)
                     else replicate (NB * NB) 0) [0..<n]"
  define F where "F = map (\<lambda>i. map2 (\<lambda>a b. a + b) (C ! i) (GD s1 ! i)) [0..<n]"
  have C: "formFock_coreH dcomplex_type s1 = C"
    by (simp add: formFock_coreH_wf [OF wf1] fr C_def n_def NB_def dcomplex_type_def)
  have lenC: "length (C ! i) = NB * NB" if "i < n" for i
    using that wf(6) wf(13) [of 0] wf(13) [of i] by (simp add: C_def fr NB_def)
  have F: "formFock_GD (Team 1 ls) (nBasis s1) (GD s1) (formFock_coreH dcomplex_type s1) = Inr F"
    unfolding C F_def One_nat_def fr
    by (rule formFock_GD_wf) (use wf(2) wf(11) lenC in \<open>simp_all add: C_def fr n_def NB_def\<close>)
  have run: "formFock (Team 1 ls) dcomplex_type p increment xHFX s =
         bindE (formFock_pert (Team 1 ls) (nBasis s1) (lenElecDipole s1) p F)
           (\<lambda>F'. Inr (s1\<lparr> fock := F',
                           calls := calls s1 @ (if EM_fields p \<noteq> [] then [GetAmp] else []) \<rparr>))"
    using s1 F by (simp add: formFock_def)
  have F0: "F ! SCALAR = map2 (\<lambda>h g. Complex h 0 + g) (coreH s ! SCALAR) (GD s1 ! SCALAR)"
    using wf(1) by (auto simp: F_def C_def n_def fr intro!: nth_equalityI)
  have Fi: "F ! i = map2 (\<lambda>h g. Complex 0 h + g) (coreH s ! i) (GD s1 ! i)"
    if "0 < i" "i < length (coreH s)" for i
    using that wf(7) by (auto simp: F_def C_def n_def fr intro!: nth_equalityI)
  have Fj: "F ! i = GD s1 ! i" if "length (coreH s) \<le> i" "i < length (fock s)" for i
    using that wf(6) wf(11) [of i] by (auto simp: F_def C_def n_def NB_def fr intro!: nth_equalityI)
  have "length F = length (fock s)"
    by (simp add: F_def n_def)
  then show ?thesis
    using s1 F run F0 Fi Fj by blast
qed

text \<open>
  C4.  The claim: in every call of \<open>formFock\<close>, after the core Hamiltonian is copied,
  \<open>G[D]\<close> is added onto every Fock component elementwise.  It holds with one worker
  (\<open>formFock_one_worker_coreH_plus_GD\<close>).  With two workers on two basis functions
  (\<open>T = dcomplex\<close>, no field, \<open>increment = false\<close>, \<open>xHFX = 1\<close>) the \<open>MatAdd\<close> of
  \<open>fock[i]\<close> and \<open>GD[i]\<close> reaches column 0 only: the scalar Fock component is
  \<open>[15, 0, 0, 2]\<close> when the workers run one after the other, its column 1 is the core
  Hamiltonian alone, while the core Hamiltonian plus the \<open>GD[SCALAR]\<close> of that state is
  \<open>[8, 0, 3, 5]\<close>.
\<close>

theorem C4_two_workers:
  "map_sum id (\<lambda>s'. (fock s' ! SCALAR,
                      map2 (\<lambda>h g. Complex h 0 + g) (coreH example_state ! SCALAR) (GD s' ! SCALAR)))
     (formFock (Team 2 False) dcomplex_type \<lparr> EM_fields = [] \<rparr> False 1 example_state)
     = Inr ([15, 0, 0, 2], [8, 0, 3, 5])"
  by code_simp

lemma formFock_before_pert:
  assumes "wellformed s" and "formGD (Team 1 ls) ty increment xHFX s = Inr s1"
  shows "\<exists>F. formFock_GD (Team 1 ls) (nBasis s1) (GD s1) (formFock_coreH ty s1) = Inr F
           \<and> F = map (\<lambda>i. map2 (\<lambda>a b. a + b) (formFock_coreH ty s1 ! i) (GD s1 ! i)) [0..<length (fock s)]
           \<and> length F = length (fock s)
           \<and> (\<forall>i<length (fock s). length (F ! i) = nBasis s * nBasis s)"
proof -
  have wf1: "wellformed s1"
    using assms by (rule formGD_wellformed)
  note wf = wellformedD [OF wf1]
  note fr = formGD_frame [OF assms(2)]
  have lenC: "length (formFock_coreH ty s1) = length (fock s)"
    by (simp add: formFock_coreH_wf [OF wf1] fr)
  have lenCi: "length (formFock_coreH ty s1 ! i) = nBasis s * nBasis s" if "i < length (fock s)" for i
    using that wf(6) wf(13) [of 0] wf(13) [of i] by (simp add: formFock_coreH_wf [OF wf1] fr)
  have F: "formFock_GD (Team 1 ls) (nBasis s1) (GD s1) (formFock_coreH ty s1) =
      Inr (map (\<lambda>i. map2 (\<lambda>a b. a + b) (formFock_coreH ty s1 ! i) (GD s1 ! i)) [0..<length (fock s)])"
    unfolding One_nat_def fr
    by (rule formFock_GD_wf) (use wf(2) wf(11) lenC lenCi in \<open>simp_all add: fr\<close>)
  show ?thesis
    using F wf(11) lenCi by (simp add: fr)
qed

lemma upt_3: "[0..<3] = [0, 1, 2]"
  by (simp add: upt_rec)

lemma formFock_pert_step:
  fixes F' :: "'a::real_algebra_1 list list"
  assumes "0 < length F'" and "length (F' ! 0) = NB * NB" and "length d = NB * NB"
  shows "(if cond
          then F'[0 := MatAdd_inplace_region (Team (Suc 0) ls) of_real NB NB 1 NB c d NB (F' ! 0) NB]
          else F') =
         F'[0 := map (\<lambda>k. F' ! 0 ! k + (if cond then c * of_real (d ! k) else 0)) [0..<NB * NB]]"
proof (cases cond)
  case True
  then show ?thesis
    using assms by (auto simp: MatAdd_inplace_region_whole intro!: nth_equalityI arg_cong [where f = "list_update F' 0"])
next
  case False
  have "map (\<lambda>k. F' ! 0 ! k) [0..<NB * NB] = F' ! 0"
    using assms(2) by (auto intro!: nth_equalityI)
  then show ?thesis
    using False by simp
qed

lemma formFock_pert_wf:
  fixes F :: "'a::real_algebra_1 list list"
  assumes "0 < length F" and "length (F ! 0) = NB * NB"
    and "\<And>ax. ax < 3 \<Longrightarrow> length (dip ! ax) = NB * NB"
  shows "formFock_pert (Team (Suc 0) ls) NB dip p F =
           Inr (F[0 := map (\<lambda>k. F ! 0 ! k
                   + (\<Sum>ax\<leftarrow>[0..<3]. if EM_fields p \<noteq> [] \<and> \<bar>getAmp p ! ax\<bar> > double_1e_10
                                     then of_real (- 2 * getAmp p ! ax) * of_real (dip ! ax ! k) else 0))
                 [0..<NB * NB]])"
proof (cases "EM_fields p \<noteq> []")
  case False
  have "map (\<lambda>k. F ! 0 ! k) [0..<NB * NB] = F ! 0"
    using assms(2) by (auto intro!: nth_equalityI)
  then show ?thesis
    using False by (simp add: formFock_pert_Inr)
next
  case True
  define t where "t ax k = (if \<bar>getAmp p ! ax\<bar> > double_1e_10
      then (of_real (- 2 * getAmp p ! ax) :: 'a) * of_real (dip ! ax ! k) else 0)" for ax k
  define step where "step ax F' = (if \<bar>getAmp p ! ax\<bar> > double_1e_10
      then F'[0 := MatAdd_inplace_region (Team (Suc 0) ls) of_real NB NB 1 NB (of_real (- 2 * getAmp p ! ax)) (dip ! ax) NB (F' ! 0) NB]
      else F')" for ax and F' :: "'a list list"
  have step: "step ax F' = F'[0 := map (\<lambda>k. F' ! 0 ! k + t ax k) [0..<NB * NB]]"
    if "0 < length F'" "length (F' ! 0) = NB * NB" "ax < 3" for ax F'
    unfolding step_def t_def
    by (rule formFock_pert_step [OF that(1,2) assms(3) [OF that(3)]])
  have step': "step ax (F[0 := map u [0..<NB * NB]]) = F[0 := map (\<lambda>k. u k + t ax k) [0..<NB * NB]]"
    if "ax < 3" for ax u
  proof -
    have "step ax (F[0 := map u [0..<NB * NB]]) =
        (F[0 := map u [0..<NB * NB]])[0 := map (\<lambda>k. (F[0 := map u [0..<NB * NB]]) ! 0 ! k + t ax k)
           [0..<NB * NB]]"
      by (rule step) (use assms(1) that in simp_all)
    also have "\<dots> = F[0 := map (\<lambda>k. map u [0..<NB * NB] ! k + t ax k) [0..<NB * NB]]"
      using assms(1) by simp
    also have "map (\<lambda>k. map u [0..<NB * NB] ! k + t ax k) [0..<NB * NB]
        = map (\<lambda>k. u k + t ax k) [0..<NB * NB]"
      by (rule nth_equalityI) simp_all
    finally show ?thesis .
  qed
  have "map (\<lambda>k. F ! 0 ! k) [0..<NB * NB] = F ! 0"
    using assms(2) by (intro nth_equalityI) simp_all
  then have start: "F = F[0 := map (\<lambda>k. F ! 0 ! k) [0..<NB * NB]]"
    by simp
  have "formFock_pert (Team (Suc 0) ls) NB dip p F = Inr (fold step [0..<3] F)"
    using True by (simp add: formFock_pert_Inr step_def [abs_def])
  also have "fold step [0..<3] F = step 2 (step 1 (step 0 F))"
    by (simp add: upt_3)
  also have "step 0 F = F[0 := map (\<lambda>k. F ! 0 ! k + t 0 k) [0..<NB * NB]]"
    by (subst start) (simp add: step')
  also have "step 1 (F[0 := map (\<lambda>k. F ! 0 ! k + t 0 k) [0..<NB * NB]])
      = F[0 := map (\<lambda>k. F ! 0 ! k + t 0 k + t 1 k) [0..<NB * NB]]"
    by (simp add: step')
  also have "step 2 (F[0 := map (\<lambda>k. F ! 0 ! k + t 0 k + t 1 k) [0..<NB * NB]])
      = F[0 := map (\<lambda>k. F ! 0 ! k + t 0 k + t 1 k + t 2 k) [0..<NB * NB]]"
    by (simp add: step')
  finally show ?thesis
    using True by (simp add: upt_3 t_def add.assoc)
qed


lemma getAmp_no_fields: "EM_fields p = [] \<Longrightarrow> getAmp p = [0, 0, 0]"
  by (simp add: getAmp_def upt_3)

text \<open>
  One worker, compared with the call without a field on the same state: a call of \<open>formFock\<close> with a non-empty perturbation descriptor evaluates the
  amplitude once; the scalar Fock component differs by the sum, over the axes whose
  amplitude exceeds \<open>1e-10\<close> in magnitude, of \<open>-2*amplitude\<close> times the dipole integrals of
  the axis; every other component is the same; and if no amplitude exceeds the threshold
  all Fock buffers are the same.
\<close>

lemma formFock_one_worker_field_term:
  assumes "wellformed s"
  shows "\<exists>s0 s'. formFock (Team 1 ls) ty \<lparr> EM_fields = [] \<rparr> increment xHFX s = Inr s0
     \<and> formFock (Team 1 ls) ty p increment xHFX s = Inr s'
     \<and> calls s' = calls s0 @ (if EM_fields p \<noteq> [] then [GetAmp] else [])
     \<and> length (fock s') = length (fock s0)
     \<and> fock s' ! SCALAR =
         map (\<lambda>k. fock s0 ! SCALAR ! k
                + (\<Sum>ax\<leftarrow>[0..<3]. if \<bar>getAmp p ! ax\<bar> > double_1e_10
                                  then of_real (- 2 * getAmp p ! ax) * of_real (lenElecDipole s ! ax ! k)
                                  else 0))
           [0..<nBasis s * nBasis s]
     \<and> (\<forall>i. 0 < i \<longrightarrow> fock s' ! i = fock s0 ! i)
     \<and> ((\<forall>ax<3. \<bar>getAmp p ! ax\<bar> \<le> double_1e_10) \<longrightarrow> fock s' = fock s0)"
proof -
  obtain s1 where s1: "formGD (Team 1 ls) ty increment xHFX s = Inr s1"
    using formGD_Inr by blast
  note fr = formGD_frame [OF s1]
  have wf1: "wellformed s1"
    using assms s1 by (rule formGD_wellformed)
  note wf = wellformedD [OF wf1]
  obtain F where F: "formFock_GD (Team 1 ls) (nBasis s1) (GD s1) (formFock_coreH ty s1) = Inr F"
    and lenF: "length F = length (fock s)"
    and lenFi: "\<forall>i<length (fock s). length (F ! i) = nBasis s * nBasis s"
    using formFock_before_pert [OF assms s1] by blast
  define dterm where "dterm q k = (\<Sum>ax\<leftarrow>[0..<3]. if EM_fields q \<noteq> [] \<and> \<bar>getAmp q ! ax\<bar> > double_1e_10
      then (of_real (- 2 * getAmp q ! ax) :: 'a) * of_real (lenElecDipole s ! ax ! k) else 0)" for q k
  have F0: "0 < length F" "length (F ! 0) = nBasis s * nBasis s"
    using lenF lenFi wf(1) by (simp_all add: fr)
  have pert: "formFock_pert (Team 1 ls) (nBasis s1) (lenElecDipole s1) q F =
      Inr (F[0 := map (\<lambda>k. F ! 0 ! k + dterm q k) [0..<nBasis s * nBasis s]])" for q
    unfolding One_nat_def fr dterm_def
    by (rule formFock_pert_wf [OF F0]) (use wf(14) in \<open>simp add: fr\<close>)
  define s0 where "s0 = s1\<lparr> fock := F, calls := calls s1 \<rparr>"
  define s' where "s' = s1\<lparr> fock := F[0 := map (\<lambda>k. F ! 0 ! k + dterm p k) [0..<nBasis s * nBasis s]],
      calls := calls s1 @ (if EM_fields p \<noteq> [] then [GetAmp] else []) \<rparr>"
  have run0: "formFock (Team 1 ls) ty \<lparr> EM_fields = [] \<rparr> increment xHFX s = Inr s0"
    using s1 F by (simp add: formFock_def formFock_pert_Inr s0_def)
  have run: "formFock (Team 1 ls) ty p increment xHFX s = Inr s'"
    using s1 F by (simp add: formFock_def pert [unfolded One_nat_def] s'_def)
  have dterm: "dterm p k = (\<Sum>ax\<leftarrow>[0..<3]. if \<bar>getAmp p ! ax\<bar> > double_1e_10
      then of_real (- 2 * getAmp p ! ax) * of_real (lenElecDipole s ! ax ! k) else 0)" for k
    by (cases "EM_fields p = []") (simp_all add: dterm_def getAmp_no_fields upt_3)
  have scalar: "fock s' ! SCALAR = map (\<lambda>k. fock s0 ! SCALAR ! k
                + (\<Sum>ax\<leftarrow>[0..<3]. if \<bar>getAmp p ! ax\<bar> > double_1e_10
                                  then of_real (- 2 * getAmp p ! ax) * of_real (lenElecDipole s ! ax ! k)
                                  else 0))
           [0..<nBasis s * nBasis s]"
    using F0(1) by (simp add: s'_def s0_def dterm)
  have others: "\<forall>i. 0 < i \<longrightarrow> fock s' ! i = fock s0 ! i"
    by (simp add: s'_def s0_def)
  have same: "fock s' = fock s0" if "\<forall>ax<3. \<bar>getAmp p ! ax\<bar> \<le> double_1e_10"
  proof -
    have "\<not> \<bar>getAmp p ! 0\<bar> > double_1e_10" "\<not> \<bar>getAmp p ! 1\<bar> > double_1e_10"
      "\<not> \<bar>getAmp p ! 2\<bar> > double_1e_10"
      using that by (simp_all add: not_less)
    then have "dterm p k = 0" for k
      by (simp add: dterm upt_3)
    moreover have "map (\<lambda>k. F ! 0 ! k) [0..<nBasis s * nBasis s] = F ! 0"
      using F0(2) by (intro nth_equalityI) simp_all
    ultimately show ?thesis
      by (simp add: s'_def s0_def)
  qed
  have "calls s' = calls s0 @ (if EM_fields p \<noteq> [] then [GetAmp] else [])"
    and "length (fock s') = length (fock s0)"
    by (simp_all add: s'_def s0_def)
  then show ?thesis
    using run0 run scalar others same by blast
qed


text \<open>
  C5.  The claim: for each axis whose amplitude exceeds the threshold, \<open>-2*amplitude\<close> times
  the dipole integrals of the axis is added onto the scalar Fock component.  It holds
  with one worker (\<open>formFock_one_worker_field_term\<close>).  With two workers on two basis
  functions and a field of amplitude \<open>1/2\<close> along x, whose term is \<open>-1\<close> on every element,
  the \<open>MatAdd\<close> of the dipole term reaches column 0 only: when the workers run one after
  the other the scalar Fock component is \<open>[13, -2, 0, 2]\<close> with the field and
  \<open>[15, 0, 0, 2]\<close> without; column 1 is the same in both.
\<close>

theorem C5_two_workers:
  "map_sum id (\<lambda>s'. fock s' ! SCALAR)
     (formFock (Team 2 False) dcomplex_type \<lparr> EM_fields = [] \<rparr> False 1 example_state)
     = Inr [15, 0, 0, 2]
   \<and> map_sum id (\<lambda>s'. fock s' ! SCALAR)
     (formFock (Team 2 False) dcomplex_type \<lparr> EM_fields = [[1 / 2, 0, 0]] \<rparr> False 1 example_state)
     = Inr [13, - 2, 0, 2]
   \<and> map (\<lambda>d. complex_of_real (- 2 * getAmp \<lparr> EM_fields = [[1 / 2, 0, 0]] \<rparr> ! 0) * of_real d)
         (lenElecDipole example_state ! 0) = [- 1, - 1, - 1, - 1]"
  by code_simp

section \<open>A full build does not depend on the former buffers\<close>

lemma formGD_full_GD:
  assumes "wellformed s" and "formGD (Team 1 ls) ty False xHFX s = Inr s'"
  shows "GD s' =
     (let NB2 = nBasis s * nBasis s;
          Jn = map (\<lambda>k. real_part ty (aoints_contract s COULOMB True (onePDM s ! SCALAR) k)) [0..<NB2];
          base = (if \<bar>xHFX\<bar> > 1 / 10 ^ 12
                  then map (\<lambda>i. map (\<lambda>k. of_real (- xHFX)
                                  * aoints_contract s EXCHANGE True (onePDM s ! i) k) [0..<NB2])
                         [0..<length (fock s)]
                  else replicate (length (fock s)) (replicate NB2 0))
      in base[SCALAR := map2 (\<lambda>a j. a + 2 * of_real j) (base ! SCALAR) Jn])"
proof -
  define NB where "NB = nBasis s"
  define n where "n = length (fock s)"
  define e0 where "e0 = aoints_contract s COULOMB True (onePDM s ! SCALAR)"
  define e where "e i = aoints_contract s EXCHANGE True (onePDM s ! i)" for i
  define JC where "JC = accumulate (formGD_JContract ty False s) e0"
  define JS where "JS = (if is_same_double ty then map (real_part ty) JC
     else GetMatRE ty NB NB 1 JC NB (JScalar s) NB)"
  define Ks where "Ks = fold (\<lambda>i Ks'. Ks'[i := accumulate (Ks' ! i) (e i)]) [0..<length (K s)]
     (fold (\<lambda>i Ks'. Ks'[i := fill_n (Ks' ! i) (NB * NB) 0]) [0..<length (K s)] (K s))"
  define G' where "G' = (if \<bar>xHFX\<bar> > 1 / 10 ^ 12
     then fold (\<lambda>i G'. G'[i := MatAdd_inplace_region (Team (Suc 0) ls) (\<lambda>x. x) NB NB 0 NB (of_real (- xHFX)) (Ks ! i) NB (G' ! i) NB])
            [0..<length Ks] (GD s)
     else fold (\<lambda>i G'. G'[i := fill_n (G' ! i) (NB * NB) 0]) [0..<length (fock s)] (GD s))"
  note wf = wellformedD [OF assms(1)]
  have GD': "GD s' = G'[SCALAR := MatAdd_inplace_region (Team (Suc 0) ls) of_real NB NB 1 NB 2 JS NB (G' ! SCALAR) NB]"
    using assms(2) unfolding formGD_explicit
    by (auto simp: Let_def G'_def Ks_def JS_def JC_def e0_def e_def NB_def)
  have JC: "JC = map e0 [0..<NB * NB]"
    by (simp add: JC_def formGD_JContract_eq [OF wf(9)] accumulate_zero NB_def)
  have JS: "JS = map (\<lambda>k. real_part ty (e0 k)) [0..<NB * NB]"
    using wf(9) by (auto simp: JS_def JC GetMatRE_whole NB_def)
  have "fold (\<lambda>i Ks'. Ks'[i := fill_n (Ks' ! i) (NB * NB) 0]) [0..<length (K s)] (K s)
      = replicate (length (K s)) (replicate (NB * NB) 0)"
    by (rule fold_fill_n_all) (simp_all add: wf(3,12) NB_def)
  then have "Ks = fold (\<lambda>i Ks'. Ks'[i := accumulate (Ks' ! i) (e i)]) [0..<n]
      (replicate n (replicate (NB * NB) 0))"
    by (simp add: Ks_def wf(3) n_def)
  also have "\<dots> = map (\<lambda>i. if i < n then accumulate (replicate n (replicate (NB * NB) 0) ! i) (e i)
                           else replicate n (replicate (NB * NB) 0) ! i)
                      [0..<length (replicate n (replicate (NB * NB) (0::'a)))]"
    by (rule fold_update_self [of "\<lambda>i F. accumulate F (e i)"])
  also have "\<dots> = map (\<lambda>i. map (e i) [0..<NB * NB]) [0..<n]"
    by (auto simp: accumulate_zero)
  finally have Ks: "Ks = map (\<lambda>i. map (e i) [0..<NB * NB]) [0..<n]" .
  have G'large: "G' = map (\<lambda>i. map (\<lambda>k. of_real (- xHFX) * e i k) [0..<NB * NB]) [0..<n]"
    if "\<bar>xHFX\<bar> > 1 / 10 ^ 12"
  proof -
    have "G' = fold (\<lambda>i G'. G'[i := MatAdd_inplace_region (Team (Suc 0) ls) (\<lambda>x. x) NB NB 0 NB (of_real (- xHFX)) (Ks ! i) NB (G' ! i) NB]) [0..<n] (GD s)"
      using that by (simp add: G'_def Ks)
    also have "\<dots> = map (\<lambda>i. if i < n
        then MatAdd_inplace_region (Team (Suc 0) ls) (\<lambda>x. x) NB NB 0 NB (of_real (- xHFX)) (Ks ! i) NB (GD s ! i) NB
        else GD s ! i) [0..<length (GD s)]"
      by (rule fold_update_self [of "\<lambda>i F. MatAdd_inplace_region (Team (Suc 0) ls) (\<lambda>x. x) NB NB 0 NB (of_real (- xHFX)) (Ks ! i) NB F NB"])
    also have "\<dots> = map (\<lambda>i. map (\<lambda>k. of_real (- xHFX) * e i k) [0..<NB * NB]) [0..<n]"
      using wf(2,11)
      by (auto simp: Ks MatAdd_inplace_region_whole n_def NB_def intro!: nth_equalityI)
    finally show ?thesis .
  qed
  have G'small: "G' = replicate n (replicate (NB * NB) 0)" if "\<not> \<bar>xHFX\<bar> > 1 / 10 ^ 12"
  proof -
    have "fold (\<lambda>i G'. G'[i := fill_n (G' ! i) (NB * NB) 0]) [0..<length (fock s)] (GD s)
      = replicate (length (fock s)) (replicate (NB * NB) 0)"
      by (rule fold_fill_n_all) (simp_all add: wf(2,11) NB_def)
    then show ?thesis
      using that by (simp add: G'_def n_def)
  qed
  have len0: "length (G' ! SCALAR) = NB * NB"
    using wf(1) by (cases "\<bar>xHFX\<bar> > 1 / 10 ^ 12") (simp_all add: G'large G'small n_def)
  have "MatAdd_inplace_region (Team (Suc 0) ls) of_real NB NB 1 NB 2 JS NB (G' ! SCALAR) NB
      = map2 (\<lambda>a j. a + 2 * of_real j) (G' ! SCALAR) JS"
    using len0 by (simp add: MatAdd_inplace_region_whole JS)
  then show ?thesis
    by (cases "\<bar>xHFX\<bar> > 1 / 10 ^ 12")
      (simp_all add: GD' G'large G'small JS Let_def e_def e0_def n_def NB_def)
qed


lemma formFock_wellformed:
  assumes "wellformed s" and "formFock (Team 1 ls) ty p increment xHFX s = Inr s'"
  shows "wellformed s'" and "nBasis s' = nBasis s" and "coreH s' = coreH s"
    and "lenElecDipole s' = lenElecDipole s" and "aoints_contract s' = aoints_contract s"
    and "onePDM s' = onePDM s" and "length (fock s') = length (fock s)"
proof -
  obtain s1 where s1: "formGD (Team 1 ls) ty increment xHFX s = Inr s1"
    using formGD_Inr by blast
  note fr = formGD_frame [OF s1]
  have wf1: "wellformed s1"
    using assms(1) s1 by (rule formGD_wellformed)
  note wf = wellformedD [OF wf1]
  obtain F where F: "formFock_GD (Team 1 ls) (nBasis s1) (GD s1) (formFock_coreH ty s1) = Inr F"
    and lenF: "length F = length (fock s)"
    and lenFi: "\<forall>i<length (fock s). length (F ! i) = nBasis s * nBasis s"
    using formFock_before_pert [OF assms(1) s1] by blast
  have F0: "0 < length F" "length (F ! 0) = nBasis s * nBasis s"
    using lenF lenFi wf(1) by (simp_all add: fr)
  obtain v where pert: "formFock_pert (Team 1 ls) (nBasis s1) (lenElecDipole s1) p F = Inr (F[0 := v])"
    and v: "length v = nBasis s * nBasis s"
    using formFock_pert_wf [OF F0, where dip = "lenElecDipole s" and p = p and ls = ls] wf(14) by (simp add: fr)
  have s': "s' = s1\<lparr> fock := F[0 := v],
      calls := calls s1 @ (if EM_fields p \<noteq> [] then [GetAmp] else []) \<rparr>"
    using assms(2) s1 F pert by (simp add: formFock_def)
  have "length (F[0 := v]) = length (fock s) \<and> list_all (\<lambda>F. length F = nBasis s * nBasis s) (F[0 := v])"
    by (rule shape_update) (use lenF lenFi v in \<open>simp_all add: list_all_length\<close>)
  then show "wellformed s'"
    using wf1 by (simp add: wellformed_def Let_def s' fr)
  show "nBasis s' = nBasis s" "coreH s' = coreH s" "lenElecDipole s' = lenElecDipole s"
    "aoints_contract s' = aoints_contract s" "onePDM s' = onePDM s"
    by (simp_all add: s' fr)
  show "length (fock s') = length (fock s)"
    by (simp add: s' lenF)
qed

lemma formFock_full_fock:
  assumes "wellformed s" and "wellformed t"
    and "nBasis t = nBasis s" and "coreH t = coreH s" and "lenElecDipole t = lenElecDipole s"
    and "aoints_contract t = aoints_contract s" and "onePDM t = onePDM s"
    and "length (fock t) = length (fock s)"
    and "formFock (Team 1 ls) ty p False xHFX s = Inr s'" and "formFock (Team 1 ls) ty p False xHFX t = Inr t'"
  shows "fock t' = fock s'"
proof -
  obtain s1 where s1: "formGD (Team 1 ls) ty False xHFX s = Inr s1"
    using formGD_Inr by blast
  obtain t1 where t1: "formGD (Team 1 ls) ty False xHFX t = Inr t1"
    using formGD_Inr by blast
  note frs = formGD_frame [OF s1]
  note frt = formGD_frame [OF t1]
  have GD: "GD t1 = GD s1"
    unfolding formGD_full_GD [OF assms(1) s1] formGD_full_GD [OF assms(2) t1] assms(3-8) ..
  have "wellformed s1" "wellformed t1"
    using assms(1,2) s1 t1 by (auto intro: formGD_wellformed)
  then have C: "formFock_coreH ty t1 = formFock_coreH ty s1"
    by (simp add: formFock_coreH_wf frs frt assms(3-8))
  have "formFock (Team 1 ls) ty p False xHFX s =
      bindE (formFock_GD (Team 1 ls) (nBasis s) (GD s1) (formFock_coreH ty s1)) (\<lambda>F.
      bindE (formFock_pert (Team 1 ls) (nBasis s) (lenElecDipole s) p F) (\<lambda>F'.
        Inr (s1\<lparr> fock := F', calls := calls s1 @ (if EM_fields p \<noteq> [] then [GetAmp] else []) \<rparr>)))"
    using s1 by (simp add: formFock_def frs)
  moreover have "formFock (Team 1 ls) ty p False xHFX t =
      bindE (formFock_GD (Team 1 ls) (nBasis s) (GD s1) (formFock_coreH ty s1)) (\<lambda>F.
      bindE (formFock_pert (Team 1 ls) (nBasis s) (lenElecDipole s) p F) (\<lambda>F'.
        Inr (t1\<lparr> fock := F', calls := calls t1 @ (if EM_fields p \<noteq> [] then [GetAmp] else []) \<rparr>)))"
    using t1 by (simp add: formFock_def frt GD C assms(3-8))
  ultimately show ?thesis
    using assms(9,10)
    by (auto simp: formFock_GD_Inr formFock_pert_Inr)
qed

text \<open>
  One worker: two calls of \<open>formFock\<close> in a row with \<open>increment = false\<close> and the same field
  and \<open>xHFX\<close> both return, and the Fock buffers after the second
  call equal those after the first.
\<close>

lemma formFock_one_worker_idempotent:
  assumes "wellformed s"
  shows "\<exists>s1 s2. formFock (Team 1 ls) ty p False xHFX s = Inr s1
           \<and> formFock (Team 1 ls) ty p False xHFX s1 = Inr s2
           \<and> fock s2 = fock s1"
proof -
  obtain s1 where s1: "formFock (Team 1 ls) ty p False xHFX s = Inr s1"
    using formFock_Inr [of "Team 1 ls" ty False xHFX s p] by blast
  obtain s2 where s2: "formFock (Team 1 ls) ty p False xHFX s1 = Inr s2"
    using formFock_Inr [of "Team 1 ls" ty False xHFX s1 p] by blast
  note keep = formFock_wellformed [OF assms s1]
  have "fock s2 = fock s1"
    using assms keep s1 s2 by (rule formFock_full_fock)
  then show ?thesis
    using s1 s2 by blast
qed

text \<open>
  C6.  The claim: two calls of \<open>formFock\<close> in a row with \<open>increment = false\<close> on an unchanged
  density, field and \<open>xHFX\<close> leave the same Fock buffers.  It holds with one worker
  (\<open>formFock_one_worker_idempotent\<close>).  With two workers both are given column 0 of every
  \<open>MatAdd\<close> and update it in place without synchronisation, so the buffers depend on the
  interleaving: on two basis functions (\<open>T = dcomplex\<close>, no field, \<open>xHFX = 1\<close>) a first
  call whose workers run one after the other leaves the scalar Fock component
  \<open>[15, 0, 0, 2]\<close>, and a second call whose workers run in lock step leaves \<open>[4, 0, 0, 2]\<close>.
\<close>

theorem C6_two_workers:
  "map_sum id fock
     (formFock (Team 2 False) dcomplex_type \<lparr> EM_fields = [] \<rparr> False 1 example_state)
     = Inr [[15, 0, 0, 2], [0, - \<i>, \<i>, 0]]
   \<and> map_sum id fock
     (bindE (formFock (Team 2 False) dcomplex_type \<lparr> EM_fields = [] \<rparr> False 1 example_state)
        (formFock (Team 2 True) dcomplex_type \<lparr> EM_fields = [] \<rparr> False 1))
     = Inr [[4, 0, 0, 2], [0, 0, \<i>, 0]]"
  by code_simp

end
